theory Spec2Isabelle
  imports Main "HOL-Library.Word"
begin

section \<open>The files archiver: task service, repository and pipeline\<close>

text \<open>
  A shallow embedding of the Go packages \<open>repository\<close> (the in-memory task store) and
  \<open>service\<close> (\<open>TaskService\<close>: \<open>CreateTask\<close>, \<open>AddLinks\<close>, \<open>GetStatus\<close>,
  \<open>downloadFile\<close>, \<open>createZipArchive\<close>, \<open>deleteFiles\<close>).

  The model is sequential: one call runs at a time, so the mutexes and the atomic
  operations are plain reads and writes of the state. Go's \<open>int64\<close> and (64-bit) \<open>int\<close>
  are \<open>64 word\<close>, read as two's complement by \<open>sint\<close> and compared by \<open>\<le>s\<close> and \<open><s\<close>.
  Strings are byte lists, as Go's are; the Cyrillic literals of the source are written
  as their UTF-8 bytes.
\<close>

type_synonym int64 = "64 word"

subsection \<open>Library functions of Go used by the service\<close>

text \<open>
  \<open>strconv.FormatInt(i, 10)\<close>: the decimal digits, with a minus sign when negative.
  A digit is read from the digit string, as \<open>strconv\<close> does.
\<close>

definition digit :: "nat \<Rightarrow> char" where
  "digit d = ''0123456789'' ! d"

fun digits10 :: "nat \<Rightarrow> string" where
  "digits10 n =
     (if n < 10 then [digit n]
      else digits10 (n div 10) @ [digit (n mod 10)])"

declare digits10.simps [simp del]

definition FormatInt :: "int \<Rightarrow> string" where
  "FormatInt i = (if i < 0 then CHR ''-'' # digits10 (nat (- i)) else digits10 (nat i))"

text \<open>
  \<open>filepath.Ext\<close> (Unix): scanning from the end and stopping at a slash, the suffix
  that starts at the first dot met; empty when there is none. \<open>ext_scan\<close> walks the
  reversed path and keeps the characters already passed.
\<close>

fun ext_scan :: "string \<Rightarrow> string \<Rightarrow> string" where
  "ext_scan [] seen = []"
| "ext_scan (c # cs) seen =
     (if c = CHR ''/'' then []
      else if c = CHR ''.'' then c # seen
      else ext_scan cs (c # seen))"

definition Ext :: "string \<Rightarrow> string" where
  "Ext path = ext_scan (rev path) []"

text \<open>
  \<open>filepath.Base\<close> (Unix): \<open>.\<close> for the empty path; otherwise trailing slashes are
  stripped and the last element is returned, \<open>/\<close> when nothing is left.
\<close>

definition Base :: "string \<Rightarrow> string" where
  "Base path =
     (if path = [] then ''.''
      else
        (let stripped = dropWhile (\<lambda>c. c = CHR ''/'') (rev path);
             element = rev (takeWhile (\<lambda>c. c \<noteq> CHR ''/'') stripped)
         in if element = [] then ''/'' else element))"

text \<open>
  \<open>strings.ToLower\<close>. A string of ASCII bytes only takes Go's fast path: the letters
  \<open>A\<close> to \<open>Z\<close> become \<open>a\<close> to \<open>z\<close> and every other byte is kept. A string with a
  byte from \<open>0x80\<close> on is mapped rune by rune through \<open>unicode.ToLower\<close>; the Unicode
  tables belong to the Go library, so that mapping is the parameter \<open>lower\<close>.
\<close>

definition lower_char :: "char \<Rightarrow> char" where
  "lower_char c =
     (if (65::nat) \<le> of_char c \<and> of_char c \<le> (90::nat) then char_of (of_char c + (32::nat)) else c)"

definition ToLower :: "(string \<Rightarrow> string) \<Rightarrow> string \<Rightarrow> string" where
  "ToLower lower s =
     (if list_all (\<lambda>c. (of_char c :: nat) < 128) s then map lower_char s else lower s)"

text \<open>\<open>strings.Contains(s, sub)\<close>: \<open>sub\<close> occurs in \<open>s\<close> as a contiguous run.\<close>

fun HasPrefix :: "string \<Rightarrow> string \<Rightarrow> bool" where
  "HasPrefix s [] = True"
| "HasPrefix [] (c # cs) = False"
| "HasPrefix (d # ds) (c # cs) = (d = c \<and> HasPrefix ds cs)"

fun Contains :: "string \<Rightarrow> string \<Rightarrow> bool" where
  "Contains [] sub = (sub = [])"
| "Contains (d # ds) sub = (HasPrefix (d # ds) sub \<or> Contains ds sub)"

subsection \<open>Errors\<close>

text \<open>
  The five sentinel errors of package \<open>service\<close>, the error of \<open>repository.GetTask\<close>
  (\<open>errors.New\<close> with the text "task not found" in Russian), and \<open>ErrExt\<close> for every
  error that comes from the standard library (transport, file system, archive
  writer) with its message.
\<close>

datatype error =
    ErrTaskNotFound
  | ErrTooManyLinks
  | ErrInvalidFile
  | ErrFileTooLarge
  | ErrServerBusy
  | ErrRepoNotFound
  | ErrExt string

subsection \<open>Package repository\<close>

record Task =
  ID :: int64
  Status :: string
  URLs :: "string list"
  ArchivePath :: string

record InMemoryRepository =
  Tasks :: "int64 \<rightharpoonup> Task"

definition NewInMemoryRepository :: InMemoryRepository where
  "NewInMemoryRepository = \<lparr>Tasks = Map.empty\<rparr>"

text \<open>\<open>SaveTask\<close> stores the task under its ID and returns its error value (\<open>None\<close> is \<open>nil\<close>).\<close>

definition SaveTask :: "InMemoryRepository \<Rightarrow> Task \<Rightarrow> InMemoryRepository \<times> error option" where
  "SaveTask r task = (r\<lparr>Tasks := (Tasks r)(ID task \<mapsto> task)\<rparr>, None)"

definition GetTask :: "InMemoryRepository \<Rightarrow> int64 \<Rightarrow> error + Task" where
  "GetTask r i = (case Tasks r i of None \<Rightarrow> Inl ErrRepoNotFound | Some task \<Rightarrow> Inr task)"

subsection \<open>Package config\<close>

record Config =
  ServerPort :: int64
  ServerTimeout :: int64
  FileMaxSize :: int64
  FileAllowedExtensions :: "string list"

subsection \<open>Package service: state, constants and status strings\<close>

record TaskService =
  repo :: InMemoryRepository
  cfg :: Config
  taskCounter :: int64
  activeTasksCounter :: int64
  filesCounter :: int64
  urlsByTask :: "int64 \<rightharpoonup> string list"

definition NewTaskService :: "InMemoryRepository \<Rightarrow> Config \<Rightarrow> TaskService" where
  "NewTaskService r c =
     \<lparr>repo = r, cfg = c, taskCounter = 0, activeTasksCounter = 0, filesCounter = 0,
      urlsByTask = Map.empty\<rparr>"

definition zipPath :: string where "zipPath = ''../archives''"
definition folderPath :: string where "folderPath = ''archives/''"
definition folderPathImg :: string where "folderPathImg = ''../downloads''"

text \<open>The status written by \<open>CreateTask\<close>: "created", in Russian (7 letters, 14 bytes).\<close>

definition status_created :: string where
  "status_created =
     [CHR 0xD1, CHR 0x81, CHR 0xD0, CHR 0xBE, CHR 0xD0, CHR 0xB7, CHR 0xD0, CHR 0xB4,
      CHR 0xD0, CHR 0xB0, CHR 0xD0, CHR 0xBB, CHR 0xD0, CHR 0xB8]"

text \<open>The status written by \<open>AddLinks\<close>: "in progress", in Russian (19 bytes).\<close>

definition status_in_progress :: string where
  "status_in_progress =
     [CHR 0xD0, CHR 0xB2, CHR 0x20, CHR 0xD0, CHR 0xBF, CHR 0xD1, CHR 0x80, CHR 0xD0,
      CHR 0xBE, CHR 0xD1, CHR 0x86, CHR 0xD0, CHR 0xB5, CHR 0xD1, CHR 0x81, CHR 0xD1,
      CHR 0x81, CHR 0xD0, CHR 0xB5]"

text \<open>The status of a failed pipeline: "unsuccessful", in Russian (18 bytes).\<close>

definition status_failed :: string where
  "status_failed =
     [CHR 0xD0, CHR 0xBD, CHR 0xD0, CHR 0xB5, CHR 0xD1, CHR 0x83, CHR 0xD1, CHR 0x81,
      CHR 0xD0, CHR 0xBF, CHR 0xD0, CHR 0xB5, CHR 0xD1, CHR 0x88, CHR 0xD0, CHR 0xBD,
      CHR 0xD0, CHR 0xBE]"

text \<open>The status of a finished pipeline: "completed", in Russian (18 bytes).\<close>

definition status_completed :: string where
  "status_completed =
     [CHR 0xD0, CHR 0xB7, CHR 0xD0, CHR 0xB0, CHR 0xD0, CHR 0xB2, CHR 0xD0, CHR 0xB5,
      CHR 0xD1, CHR 0x80, CHR 0xD1, CHR 0x88, CHR 0xD0, CHR 0xB5, CHR 0xD0, CHR 0xBD,
      CHR 0xD0, CHR 0xB0]"

text \<open>
  The archive base name of a task, computed alike in \<open>CreateTask\<close> and
  \<open>createZipArchive\<close>: \<open>Task_\<close>, a \<open>0\<close> when the ID is below 10, and the ID in decimal.
\<close>

definition zipName :: "int64 \<Rightarrow> string" where
  "zipName taskID =
     (if taskID <s 10 then ''Task_'' @ ''0'' @ FormatInt (sint taskID)
      else ''Task_'' @ FormatInt (sint taskID))"

text \<open>Reading a Go map of slices: a missing key gives the nil slice, of length 0.\<close>

definition lookupURLs :: "(int64 \<rightharpoonup> string list) \<Rightarrow> int64 \<Rightarrow> string list" where
  "lookupURLs m k = (case m k of None \<Rightarrow> [] | Some us \<Rightarrow> us)"

subsection \<open>CreateTask and AddLinks\<close>

definition CreateTask :: "TaskService \<Rightarrow> TaskService \<times> (error + int64)" where
  "CreateTask s =
     (if 3 \<le>s activeTasksCounter s then (s, Inl ErrServerBusy)
      else
        (let s1 = s\<lparr>activeTasksCounter := activeTasksCounter s + 1\<rparr>;
             taskID = taskCounter s1 + 1;
             s2 = s1\<lparr>taskCounter := taskID\<rparr>;
             archivePath = zipPath @ ''/'' @ zipName taskID;
             task = \<lparr>ID = taskID, Status = status_created, URLs = [],
                     ArchivePath = archivePath\<rparr>
         in case SaveTask (repo s2) task of
              (r, Some err) \<Rightarrow> (s2\<lparr>repo := r\<rparr>, Inl err)
            | (r, None) \<Rightarrow>
                (s2\<lparr>repo := r, urlsByTask := (urlsByTask s2)(taskID \<mapsto> [])\<rparr>, Inr taskID)))"

definition AddLinks :: "TaskService \<Rightarrow> int64 \<Rightarrow> string list \<Rightarrow> TaskService \<times> error option" where
  "AddLinks s taskID urls =
     (case GetTask (repo s) taskID of
        Inl err \<Rightarrow> (s, Some ErrTaskNotFound)
      | Inr task \<Rightarrow>
          (let currentURLs = lookupURLs (urlsByTask s) taskID in
           if 3 \<le> length currentURLs then (s, Some ErrTooManyLinks)
           else if 3 < length currentURLs + length urls then (s, Some ErrTooManyLinks)
           else
             (let s1 = s\<lparr>urlsByTask :=
                         (urlsByTask s)(taskID \<mapsto> lookupURLs (urlsByTask s) taskID @ urls)\<rparr>;
                  task1 = task\<lparr>Status := status_in_progress\<rparr>
              in case SaveTask (repo s1) task1 of
                   (r, Some err) \<Rightarrow> (s1\<lparr>repo := r\<rparr>, Some err)
                 | (r, None) \<Rightarrow> (s1\<lparr>repo := r\<rparr>, None))))"

subsection \<open>The world outside the service\<close>

text \<open>
  A file holds raw bytes or is a zip container with its named entries (the container
  format itself is not modelled; an entry holds what was read from the file added).
\<close>

datatype fcontent = Bytes string | ZipFile "(string \<times> fcontent) list"

datatype http_method = HEAD | GET

text \<open>
  The \<open>slog\<close> calls of the service, one constructor per call site: the failed download
  of a URL in \<open>GetStatus\<close>, the failed save of a status, the failed archive, the
  failed deletion, the failed save of the finished task, the three messages around the
  HEAD request in \<open>downloadFile\<close>, and the file that \<open>createZipArchive\<close> could not open.
\<close>

datatype log_site =
    DownloadFailed
  | StatusUpdateFailed
  | ArchiveFailed
  | DeleteFailed
  | TaskUpdateFailed
  | HeadCreateFailed
  | HeadFailed
  | HeadDone
  | OpenFailed

datatype log_level = LevelInfo | LevelWarn | LevelError

text \<open>
  The world the service acts on: the files on disk by path, the HTTP requests sent so
  far and the log lines written so far, both oldest first.
\<close>

record world =
  disk :: "string \<rightharpoonup> fcontent"
  requests :: "(http_method \<times> string) list"
  logged :: "(log_level \<times> log_site) list"

text \<open>
  The calls into the operating system and the libraries that may fail, and the
  environment that decides each outcome during one call of the service:
  \<^item> \<open>os_fail\<close> gives the error message of a failing call, \<open>None\<close> when it succeeds
    (for \<open>Stat\<close> and \<open>Open\<close>: an error other than a missing file, which the disk decides);
  \<^item> \<open>copy_fail\<close> gives, for an \<open>io.Copy\<close> into the named destination that fails, the
    error and what was written before it;
  \<^item> \<open>close_fail\<close> gives, when a deferred \<open>Close\<close> of the archive writer or of the
    archive file fails, what the named file holds in place of the complete content
    (the code drops the error of a deferred \<open>Close\<close>); \<open>None\<close> when both succeed;
  \<^item> \<open>http_head\<close> answers a HEAD request with the Content-Type header, \<open>http_get\<close> a GET
    request with the declared \<open>ContentLength\<close> (\<open>-1\<close> when unknown) and the body; \<open>Inl\<close>
    is a transport error;
  \<^item> \<open>unicode_lower\<close> is the lowering of a string that is not pure ASCII, by the
    Unicode tables of the Go library (the parameter of \<open>ToLower\<close>).
\<close>

datatype os_call =
    NewRequest string
  | MkdirAll string
  | Create string
  | Open string
  | Stat string
  | Remove string
  | ZipCreate string

record env =
  os_fail :: "os_call \<Rightarrow> string option"
  copy_fail :: "string \<Rightarrow> fcontent \<Rightarrow> (string \<times> fcontent) option"
  close_fail :: "string \<Rightarrow> fcontent \<Rightarrow> fcontent option"
  http_head :: "string \<Rightarrow> string + string"
  http_get :: "string \<Rightarrow> string + (int64 \<times> string)"
  unicode_lower :: "string \<Rightarrow> string"

definition log_line :: "log_level \<Rightarrow> log_site \<Rightarrow> world \<Rightarrow> world" where
  "log_line l m w = w\<lparr>logged := logged w @ [(l, m)]\<rparr>"

definition send :: "http_method \<Rightarrow> string \<Rightarrow> world \<Rightarrow> world" where
  "send m url w = w\<lparr>requests := requests w @ [(m, url)]\<rparr>"

definition write_file :: "string \<Rightarrow> fcontent \<Rightarrow> world \<Rightarrow> world" where
  "write_file p c w = w\<lparr>disk := (disk w)(p \<mapsto> c)\<rparr>"

definition remove_file :: "string \<Rightarrow> world \<Rightarrow> world" where
  "remove_file p w = w\<lparr>disk := (disk w)(p := None)\<rparr>"

subsection \<open>downloadFile\<close>

text \<open>The first loop of \<open>downloadFile\<close>: is the extension a dot and an allowed entry?\<close>

fun extAllowed :: "string list \<Rightarrow> string \<Rightarrow> bool" where
  "extAllowed [] ext = False"
| "extAllowed (a # as) ext = (if ext = ''.'' @ a then True else extAllowed as ext)"

text \<open>
  The second loop: the first allowed entry that the Content-Type contains gives the
  extension, a dot and that entry.
\<close>

fun contentTypeExt :: "string list \<Rightarrow> string \<Rightarrow> string option" where
  "contentTypeExt [] contentType = None"
| "contentTypeExt (a # as) contentType =
     (if Contains contentType a then Some (''.'' @ a) else contentTypeExt as contentType)"

text \<open>The name of a downloaded file before its extension: task and file counter.\<close>

definition preffileName :: "int64 \<Rightarrow> int64 \<Rightarrow> string" where
  "preffileName taskID n =
     (if taskID <s 10 then ''Task_'' @ ''0'' @ FormatInt (sint taskID) @ ''_'' @ FormatInt (sint n)
      else ''Task_'' @ FormatInt (sint taskID) @ ''_'' @ FormatInt (sint n))"

text \<open>
  The type check (up to the second \<open>if !isAllowed\<close>): the extension to store the file
  under, or the error that ends the download.
\<close>

definition checkType :: "env \<Rightarrow> Config \<Rightarrow> world \<Rightarrow> string \<Rightarrow> world \<times> (error + string)" where
  "checkType e c w url =
     (let ext = ToLower (unicode_lower e) (Ext url) in
      if extAllowed (FileAllowedExtensions c) ext then (w, Inr ext)
      else
        (case os_fail e (NewRequest url) of
           Some msg \<Rightarrow> (log_line LevelWarn HeadCreateFailed w, Inl (ErrExt msg))
         | None \<Rightarrow>
             (case http_head e url of
                Inl msg \<Rightarrow> (log_line LevelWarn HeadFailed (send HEAD url w), Inl (ErrExt msg))
              | Inr contentType \<Rightarrow>
                  (let w1 = log_line LevelInfo HeadDone (send HEAD url w) in
                   case contentTypeExt (FileAllowedExtensions c) contentType of
                     None \<Rightarrow> (w1, Inl ErrInvalidFile)
                   | Some ext' \<Rightarrow> (w1, Inr ext')))))"

definition downloadFile ::
  "env \<Rightarrow> TaskService \<Rightarrow> world \<Rightarrow> string \<Rightarrow> int64 \<Rightarrow> (TaskService \<times> world) \<times> (error + string)"
where
  "downloadFile e s w url taskID =
     (case checkType e (cfg s) w url of
        (w1, Inl err) \<Rightarrow> ((s, w1), Inl err)
      | (w1, Inr ext) \<Rightarrow>
          (case os_fail e (NewRequest url) of
             Some msg \<Rightarrow> ((s, w1), Inl (ErrExt msg))
           | None \<Rightarrow>
               (case http_get e url of
                  Inl msg \<Rightarrow> ((s, send GET url w1), Inl (ErrExt msg))
                | Inr (contentLength, body) \<Rightarrow>
                    (let w2 = send GET url w1 in
                     if FileMaxSize (cfg s) <s contentLength then ((s, w2), Inl ErrFileTooLarge)
                     else
                       (let n = filesCounter s + 1;
                            s1 = s\<lparr>filesCounter := n\<rparr>;
                            fileName = folderPathImg @ ''/'' @ preffileName taskID n @ ext
                        in case os_fail e (MkdirAll folderPathImg) of
                             Some msg \<Rightarrow> ((s1, w2), Inl (ErrExt msg))
                           | None \<Rightarrow>
                               (case os_fail e (Create fileName) of
                                  Some msg \<Rightarrow> ((s1, w2), Inl (ErrExt msg))
                                | None \<Rightarrow>
                                    (case copy_fail e fileName (Bytes body) of
                                       Some (msg, written) \<Rightarrow>
                                         ((s1, write_file fileName written w2), Inl (ErrExt msg))
                                     | None \<Rightarrow>
                                         ((s1, write_file fileName (Bytes body) w2),
                                          Inr fileName))))))))"

subsection \<open>createZipArchive and deleteFiles\<close>

text \<open>
  The loop of \<open>createZipArchive\<close>: a file that cannot be opened is logged and skipped;
  a failing \<open>zipWriter.Create\<close> or \<open>io.Copy\<close> ends the loop with the error. The entries
  written so far are returned in both cases: the deferred \<open>Close\<close> of the archive
  writer writes them.
\<close>

fun zipLoop ::
  "env \<Rightarrow> world \<Rightarrow> string list \<Rightarrow> (string \<times> fcontent) list
     \<Rightarrow> world \<times> (string \<times> fcontent) list \<times> error option"
where
  "zipLoop e w [] entries = (w, entries, None)"
| "zipLoop e w (filePath # rest) entries =
     (case (if os_fail e (Open filePath) = None then disk w filePath else None) of
        None \<Rightarrow> zipLoop e (log_line LevelWarn OpenFailed w) rest entries
      | Some content \<Rightarrow>
          (case os_fail e (ZipCreate (Base filePath)) of
             Some msg \<Rightarrow> (w, entries, Some (ErrExt msg))
           | None \<Rightarrow>
               (case copy_fail e (Base filePath) content of
                  Some (msg, written) \<Rightarrow>
                    (w, entries @ [(Base filePath, written)], Some (ErrExt msg))
                | None \<Rightarrow> zipLoop e w rest (entries @ [(Base filePath, content)]))))"

text \<open>
  \<open>createZipArchive\<close>. Both of its deferred \<open>Close\<close> calls run on every return after
  the archive file was created, and their errors are dropped: the file then holds the
  entries written, or what \<open>close_fail\<close> says when a \<open>Close\<close> failed.
\<close>

definition createZipArchive ::
  "env \<Rightarrow> TaskService \<Rightarrow> world \<Rightarrow> int64 \<Rightarrow> string list \<Rightarrow> world \<times> (error + string)"
where
  "createZipArchive e s w taskID files =
     (let archiveName =
            (case Tasks (repo s) taskID of None \<Rightarrow> [] | Some task \<Rightarrow> ArchivePath task) @ ''.zip''
      in case os_fail e (MkdirAll zipPath) of
           Some msg \<Rightarrow> (w, Inl (ErrExt msg))
         | None \<Rightarrow>
             (case os_fail e (Create archiveName) of
                Some msg \<Rightarrow> (w, Inl (ErrExt msg))
              | None \<Rightarrow>
                  (case zipLoop e (write_file archiveName (Bytes []) w) files [] of
                     (w1, entries, r) \<Rightarrow>
                       (let closed = (case close_fail e archiveName (ZipFile entries) of
                                        None \<Rightarrow> ZipFile entries
                                      | Some broken \<Rightarrow> broken);
                            w2 = write_file archiveName closed w1 in
                        case r of
                          Some err \<Rightarrow> (w2, Inl err)
                        | None \<Rightarrow> (w2, Inr (folderPath @ zipName taskID @ ''.zip''))))))"

fun deleteFiles :: "env \<Rightarrow> world \<Rightarrow> string list \<Rightarrow> world \<times> error option" where
  "deleteFiles e w [] = (w, None)"
| "deleteFiles e w (filePath # rest) =
     (case os_fail e (Stat filePath) of
        Some msg \<Rightarrow> (w, Some (ErrExt msg))
      | None \<Rightarrow>
          (case disk w filePath of
             None \<Rightarrow> deleteFiles e w rest
           | Some content \<Rightarrow>
               (case os_fail e (Remove filePath) of
                  Some msg \<Rightarrow> (w, Some (ErrExt msg))
                | None \<Rightarrow> deleteFiles e (remove_file filePath w) rest)))"

subsection \<open>GetStatus\<close>

text \<open>The download loop of \<open>GetStatus\<close>: a failed download is logged and skipped.\<close>

fun downloadAll ::
  "env \<Rightarrow> TaskService \<Rightarrow> world \<Rightarrow> string list \<Rightarrow> int64 \<Rightarrow> (TaskService \<times> world) \<times> string list"
where
  "downloadAll e s w [] taskID = ((s, w), [])"
| "downloadAll e s w (u # us) taskID =
     (case downloadFile e s w u taskID of
        ((s1, w1), Inl err) \<Rightarrow> downloadAll e s1 (log_line LevelWarn DownloadFailed w1) us taskID
      | ((s1, w1), Inr filePath) \<Rightarrow>
          (case downloadAll e s1 w1 us taskID of
             (st, files) \<Rightarrow> (st, filePath # files)))"

text \<open>Saving a status from \<open>GetStatus\<close>: a failing save is logged, never returned.\<close>

definition saveLogged :: "log_site \<Rightarrow> TaskService \<Rightarrow> world \<Rightarrow> Task \<Rightarrow> TaskService \<times> world" where
  "saveLogged site s w task =
     (case SaveTask (repo s) task of
        (r, Some err) \<Rightarrow> (s\<lparr>repo := r\<rparr>, log_line LevelError site w)
      | (r, None) \<Rightarrow> (s\<lparr>repo := r\<rparr>, w))"

definition GetStatus ::
  "env \<Rightarrow> TaskService \<Rightarrow> world \<Rightarrow> int64
     \<Rightarrow> (TaskService \<times> world) \<times> (error + (string \<rightharpoonup> string))"
where
  "GetStatus e s w taskID =
     (case GetTask (repo s) taskID of
        Inl err \<Rightarrow> ((s, w), Inl ErrTaskNotFound)
      | Inr task \<Rightarrow>
          (let urlCount = length (lookupURLs (urlsByTask s) taskID);
               result = [''status'' \<mapsto> status_in_progress]
           in if \<not> 3 \<le> urlCount then ((s, w), Inr result)
              else
                (case downloadAll e s w (lookupURLs (urlsByTask s) taskID) taskID of
                   ((s1, w1), files) \<Rightarrow>
                     if length files = 0 then
                       (saveLogged StatusUpdateFailed s1 w1 (task\<lparr>Status := status_failed\<rparr>),
                        Inr [''status'' \<mapsto> ''failed''])
                     else
                       (case createZipArchive e s1 w1 taskID files of
                          (w2, Inl err) \<Rightarrow>
                            (saveLogged StatusUpdateFailed s1 (log_line LevelError ArchiveFailed w2)
                               (task\<lparr>Status := status_failed\<rparr>),
                             Inr [''status'' \<mapsto> status_failed])
                        | (w2, Inr archivePath) \<Rightarrow>
                            (let (w3, derr) = deleteFiles e w2 files;
                                 w4 = (case derr of
                                         Some err \<Rightarrow> log_line LevelError DeleteFailed w3
                                       | None \<Rightarrow> w3);
                                 s2 = s1\<lparr>activeTasksCounter := activeTasksCounter s1 - 1\<rparr>;
                                 task1 = task\<lparr>Status := status_completed,
                                              ArchivePath := archivePath\<rparr>
                             in (saveLogged TaskUpdateFailed s2 w4 task1,
                                 Inr (result(''status'' \<mapsto> status_completed,
                                        ''archive_url'' \<mapsto>
                                          ''http://localhost:'' @ FormatInt (sint (ServerPort (cfg s)))
                                            @ ''/'' @ ArchivePath task1))))))))"

subsection \<open>Reachable states\<close>

text \<open>
  The states of a running service: those that calls of \<open>CreateTask\<close>, \<open>AddLinks\<close> and
  \<open>GetStatus\<close>, in any order, with any arguments and in any environment, lead to from
  a new service with an empty repository.
\<close>

inductive reachable :: "Config \<Rightarrow> TaskService \<times> world \<Rightarrow> bool" for c :: Config where
  started: "reachable c (NewTaskService NewInMemoryRepository c, w)"
| created: "reachable c (s, w) \<Longrightarrow> reachable c (fst (CreateTask s), w)"
| linked: "reachable c (s, w) \<Longrightarrow> reachable c (fst (AddLinks s taskID urls), w)"
| polled: "reachable c (s, w) \<Longrightarrow> reachable c (fst (GetStatus e s w taskID))"

text \<open>Every task of the repository is stored under its own ID.\<close>

definition keyed_by_ID :: "TaskService \<Rightarrow> bool" where
  "keyed_by_ID s = (\<forall>k task. Tasks (repo s) k = Some task \<longrightarrow> ID task = k)"

text \<open>
  The same runs with the IDs they handed out, newest first, as long as the ID counter
  has not reached the largest \<open>int64\<close> at a creation: \<open>allocated c ids (s, w)\<close> says that
  the calls of \<open>CreateTask\<close> so far returned exactly the IDs \<open>ids\<close>.
\<close>

inductive allocated :: "Config \<Rightarrow> int64 list \<Rightarrow> TaskService \<times> world \<Rightarrow> bool"
  for c :: Config where
  fresh: "allocated c [] (NewTaskService NewInMemoryRepository c, w)"
| handed_out: "allocated c ids (s, w) \<Longrightarrow> sint (taskCounter s) < 2 ^ 63 - 1 \<Longrightarrow>
     CreateTask s = (s', Inr i) \<Longrightarrow> allocated c (i # ids) (s', w)"
| refused: "allocated c ids (s, w) \<Longrightarrow> CreateTask s = (s', Inl err) \<Longrightarrow>
     allocated c ids (s', w)"
| links_added: "allocated c ids (s, w) \<Longrightarrow> allocated c ids (fst (AddLinks s taskID urls), w)"
| status_polled: "allocated c ids (s, w) \<Longrightarrow> allocated c ids (fst (GetStatus e s w taskID))"

subsection \<open>The path of a URL, in the words of the specification\<close>



subsection \<open>Example runs\<close>

text \<open>
  A configuration that allows \<open>jpg\<close> and \<open>png\<close> up to 10 bytes, a fresh service, an
  empty world, and three environments in which every system call succeeds: \<open>env_up\<close>
  serves three bytes for every URL, \<open>env_down\<close> has no route to any host, and
  \<open>env_chunked\<close> serves twenty bytes without a declared length. (Their \<open>unicode_lower\<close>
  is never consulted: the URLs of the examples are pure ASCII.)
\<close>

definition demo_cfg :: Config where
  "demo_cfg =
     \<lparr>ServerPort = 8080, ServerTimeout = 5, FileMaxSize = 10,
      FileAllowedExtensions = [''jpg'', ''png'']\<rparr>"

definition demo_new :: TaskService where
  "demo_new = NewTaskService NewInMemoryRepository demo_cfg"

definition demo_world :: world where
  "demo_world = \<lparr>disk = Map.empty, requests = [], logged = []\<rparr>"

definition env_up :: env where
  "env_up =
     \<lparr>os_fail = (\<lambda>c. None), copy_fail = (\<lambda>p c. None), close_fail = (\<lambda>p c. None),
      http_head = (\<lambda>u. Inr ''image/png''), http_get = (\<lambda>u. Inr (3, ''abc'')),
      unicode_lower = (\<lambda>s. s)\<rparr>"

definition env_down :: env where
  "env_down =
     \<lparr>os_fail = (\<lambda>c. None), copy_fail = (\<lambda>p c. None), close_fail = (\<lambda>p c. None),
      http_head = (\<lambda>u. Inl ''no route to host''), http_get = (\<lambda>u. Inl ''no route to host''),
      unicode_lower = (\<lambda>s. s)\<rparr>"

definition env_chunked :: env where
  "env_chunked =
     \<lparr>os_fail = (\<lambda>c. None), copy_fail = (\<lambda>p c. None), close_fail = (\<lambda>p c. None),
      http_head = (\<lambda>u. Inr ''text/html''),
      http_get = (\<lambda>u. Inr (- 1, ''0123456789abcdefghij'')),
      unicode_lower = (\<lambda>s. s)\<rparr>"

text \<open>An environment in which only the removal of the first downloaded file fails.\<close>

definition env_locked :: env where
  "env_locked =
     \<lparr>os_fail = (\<lambda>c. if c = Remove ''../downloads/Task_01_1.jpg'' then Some ''permission denied''
                        else None),
      copy_fail = (\<lambda>p c. None), close_fail = (\<lambda>p c. None),
      http_head = (\<lambda>u. Inr ''image/png''), http_get = (\<lambda>u. Inr (3, ''abc'')),
      unicode_lower = (\<lambda>s. s)\<rparr>"

definition demo_urls :: "string list" where
  "demo_urls = [''http://h/a.jpg'', ''http://h/b.png'', ''http://h/c.jpg'']"

text \<open>One task created; the same with two links; the same with three links.\<close>

definition demo_created :: TaskService where
  "demo_created = fst (CreateTask demo_new)"

definition demo_two :: TaskService where
  "demo_two = fst (AddLinks demo_created 1 [''http://h/a.jpg'', ''http://h/b.png''])"

definition demo_linked :: TaskService where
  "demo_linked = fst (AddLinks demo_created 1 demo_urls)"

text \<open>Three tasks created, the first of them with three links: no slot is left.\<close>

definition demo_full :: TaskService where
  "demo_full = fst (AddLinks (fst (CreateTask (fst (CreateTask demo_created)))) 1 demo_urls)"

text \<open>The three files that \<open>env_up\<close> downloads for the first task, and the world holding them.\<close>

definition demo_files :: "string list" where
  "demo_files =
     [''../downloads/Task_01_1.jpg'', ''../downloads/Task_01_2.png'',
      ''../downloads/Task_01_3.jpg'']"

definition demo_downloaded :: world where
  "demo_downloaded =
     \<lparr>disk = [''../downloads/Task_01_1.jpg'' \<mapsto> Bytes ''abc'',
              ''../downloads/Task_01_2.png'' \<mapsto> Bytes ''abc'',
              ''../downloads/Task_01_3.jpg'' \<mapsto> Bytes ''abc''],
      requests = [(GET, ''http://h/a.jpg''), (GET, ''http://h/b.png''), (GET, ''http://h/c.jpg'')],
      logged = []\<rparr>"

text \<open>The service after the first task has been completed.\<close>

definition demo_done :: TaskService where
  "demo_done =
     \<lparr>repo = \<lparr>Tasks = [1 \<mapsto> \<lparr>ID = 1, Status = status_completed, URLs = [],
                              ArchivePath = ''archives/Task_01.zip''\<rparr>]\<rparr>,
      cfg = demo_cfg, taskCounter = 1, activeTasksCounter = 0, filesCounter = 3,
      urlsByTask = [1 \<mapsto> demo_urls]\<rparr>"

text \<open>The world after the first task has been completed: the archive alone is on disk.\<close>

definition demo_archived :: world where
  "demo_archived =
     \<lparr>disk = [''../archives/Task_01.zip'' \<mapsto>
                ZipFile [(''Task_01_1.jpg'', Bytes ''abc''), (''Task_01_2.png'', Bytes ''abc''),
                         (''Task_01_3.jpg'', Bytes ''abc'')]],
      requests = [(GET, ''http://h/a.jpg''), (GET, ''http://h/b.png''), (GET, ''http://h/c.jpg'')],
      logged = []\<rparr>"

text \<open>
  Polling the task with three links while every download succeeds, and polling it once
  more afterwards: with the same environment, and with no route to any host.
\<close>

definition demo_poll1 ::
  "(TaskService \<times> world) \<times> (error + (string \<rightharpoonup> string))" where
  "demo_poll1 = GetStatus env_up demo_linked demo_world 1"

definition demo_poll2 ::
  "(TaskService \<times> world) \<times> (error + (string \<rightharpoonup> string))" where
  "demo_poll2 = GetStatus env_up (fst (fst demo_poll1)) (snd (fst demo_poll1)) 1"

definition demo_poll2_down ::
  "(TaskService \<times> world) \<times> (error + (string \<rightharpoonup> string))" where
  "demo_poll2_down = GetStatus env_down (fst (fst demo_poll1)) (snd (fst demo_poll1)) 1"

subsection \<open>Machine arithmetic and small evaluations\<close>

lemma sint_succ64: "sint (x::int64) < 2 ^ 63 - 1 \<Longrightarrow> sint (x + 1) = sint x + 1"
  using sint_ge [of x] by (simp add: sint_word_ariths signed_take_bit_int_eq_self_iff)

lemma word_cmp:
  "(1::int64) <s 10" "\<not> 3 \<le>s (0::int64)" "\<not> 3 \<le>s (1::int64)" "\<not> 3 \<le>s (2::int64)"
  "3 \<le>s (3::int64)" "\<not> (10::int64) <s 3" "\<not> (10::int64) <s - 1" "(10::int64) <s 11"
  by (simp_all add: word_sless_alt word_sle_eq)

lemma digits10_small: "n < 10 \<Longrightarrow> digits10 n = [digit n]"
  by (simp add: digits10.simps)

lemma zipName_small: "0 \<le> sint i \<Longrightarrow> sint i < 10 \<Longrightarrow> zipName i = ''Task_0'' @ [digit (nat (sint i))]"
  by (simp add: zipName_def FormatInt_def word_sless_alt digits10_small)

lemma zipName_large: "10 \<le> sint i \<Longrightarrow> zipName i = ''Task_'' @ digits10 (nat (sint i))"
  by (simp add: zipName_def FormatInt_def word_sless_alt)

lemma zipName_1: "zipName 1 = ''Task_01''"
  by (simp add: zipName_small digit_def)

lemma zipName_2: "zipName 2 = ''Task_02''"
  by (simp add: zipName_small digit_def)

lemma zipName_3: "zipName 3 = ''Task_03''"
  by (simp add: zipName_small digit_def)

lemma preffileName_demo:
  "preffileName 1 1 = ''Task_01_1''" "preffileName 1 2 = ''Task_01_2''"
  "preffileName 1 3 = ''Task_01_3''"
  by (simp_all add: preffileName_def FormatInt_def digits10_small digit_def word_cmp)

lemma ext_demo:
  "ToLower lower (Ext ''http://h/a.jpg'') = ''.jpg''"
  "ToLower lower (Ext ''http://h/b.png'') = ''.png''"
  "ToLower lower (Ext ''http://h/c.jpg'') = ''.jpg''"
  "ToLower lower (Ext ''http://h/page'') = []"
  "ToLower lower (Ext ''http://h/a.jpg?x=1'') = ''.jpg?x=1''"
  "ToLower lower (Ext ''http://h.png'') = ''.png''"
  by (simp_all add: ToLower_def Ext_def lower_char_def)

lemma base_demo:
  "Base ''../downloads/Task_01_1.jpg'' = ''Task_01_1.jpg''"
  "Base ''../downloads/Task_01_2.png'' = ''Task_01_2.png''"
  "Base ''../downloads/Task_01_3.jpg'' = ''Task_01_3.jpg''"
  by (simp_all add: Base_def)

lemma demo_created_eq:
  "demo_created =
     \<lparr>repo = \<lparr>Tasks = [1 \<mapsto> \<lparr>ID = 1, Status = status_created, URLs = [],
                              ArchivePath = ''../archives/Task_01''\<rparr>]\<rparr>,
      cfg = demo_cfg, taskCounter = 1, activeTasksCounter = 1, filesCounter = 0,
      urlsByTask = [1 \<mapsto> []]\<rparr>"
  by (simp add: demo_created_def demo_new_def NewTaskService_def NewInMemoryRepository_def
      CreateTask_def SaveTask_def Let_def word_cmp zipName_1 zipPath_def)

lemma demo_two_eq:
  "demo_two =
     \<lparr>repo = \<lparr>Tasks = [1 \<mapsto> \<lparr>ID = 1, Status = status_in_progress, URLs = [],
                              ArchivePath = ''../archives/Task_01''\<rparr>]\<rparr>,
      cfg = demo_cfg, taskCounter = 1, activeTasksCounter = 1, filesCounter = 0,
      urlsByTask = [1 \<mapsto> [''http://h/a.jpg'', ''http://h/b.png'']]\<rparr>"
  by (simp add: demo_two_def demo_created_eq AddLinks_def SaveTask_def GetTask_def
      lookupURLs_def Let_def)

lemma demo_linked_eq:
  "demo_linked =
     \<lparr>repo = \<lparr>Tasks = [1 \<mapsto> \<lparr>ID = 1, Status = status_in_progress, URLs = [],
                              ArchivePath = ''../archives/Task_01''\<rparr>]\<rparr>,
      cfg = demo_cfg, taskCounter = 1, activeTasksCounter = 1, filesCounter = 0,
      urlsByTask = [1 \<mapsto> demo_urls]\<rparr>"
  by (simp add: demo_linked_def demo_created_eq AddLinks_def SaveTask_def GetTask_def
      lookupURLs_def Let_def demo_urls_def)

lemma demo_full_eq:
  "demo_full =
     \<lparr>repo = \<lparr>Tasks =
         [1 \<mapsto> \<lparr>ID = 1, Status = status_in_progress, URLs = [],
                 ArchivePath = ''../archives/Task_01''\<rparr>,
          2 \<mapsto> \<lparr>ID = 2, Status = status_created, URLs = [],
                 ArchivePath = ''../archives/Task_02''\<rparr>,
          3 \<mapsto> \<lparr>ID = 3, Status = status_created, URLs = [],
                 ArchivePath = ''../archives/Task_03''\<rparr>]\<rparr>,
      cfg = demo_cfg, taskCounter = 3, activeTasksCounter = 3, filesCounter = 0,
      urlsByTask = [1 \<mapsto> demo_urls, 2 \<mapsto> [], 3 \<mapsto> []]\<rparr>"
  by (simp add: demo_full_def demo_created_eq CreateTask_def AddLinks_def SaveTask_def GetTask_def
      lookupURLs_def Let_def demo_urls_def word_cmp zipName_2 zipName_3 zipPath_def fun_upd_twist)

subsection \<open>The repository and the two simple operations\<close>

text \<open>
  C10. \<open>SaveTask\<close> is total and always returns \<open>nil\<close>: it stores the task under its ID.
  So the save-failure branches are dead: \<open>CreateTask\<close> either refuses with
  \<open>ErrServerBusy\<close> and leaves the whole state (the active-task counter included) as it
  was, or returns an ID; \<open>AddLinks\<close> returns \<open>nil\<close> or one of its two own errors.
\<close>

theorem SaveTask_always_nil:
  "snd (SaveTask r task) = None
   \<and> Tasks (fst (SaveTask r task)) = (Tasks r)(ID task \<mapsto> task)
   \<and> (CreateTask s = (s, Inl ErrServerBusy) \<or> (\<exists>s' i. CreateTask s = (s', Inr i)))
   \<and> snd (AddLinks s taskID urls) \<in> {None, Some ErrTaskNotFound, Some ErrTooManyLinks}"
  by (simp add: SaveTask_def CreateTask_def AddLinks_def GetTask_def Let_def split: option.splits)

text \<open>
  C4. \<open>AddLinks\<close> on an ID that was never saved fails with \<open>ErrTaskNotFound\<close>; on a
  task whose ledger holds 3 or more URLs, or would hold more than 3 with the new ones,
  it fails with \<open>ErrTooManyLinks\<close>; every failure returns the state as it was. Otherwise
  it succeeds: the ledger of the task is the old one followed by the new URLs in their
  order, the stored task has the status "in progress", and nothing else changes.
\<close>

theorem AddLinks_spec:
  "(Tasks (repo s) taskID = None \<longrightarrow> AddLinks s taskID urls = (s, Some ErrTaskNotFound))
   \<and> (Tasks (repo s) taskID = Some task \<and> ID task = taskID \<longrightarrow>
        (3 \<le> length (lookupURLs (urlsByTask s) taskID)
           \<or> 3 < length (lookupURLs (urlsByTask s) taskID) + length urls \<longrightarrow>
         AddLinks s taskID urls = (s, Some ErrTooManyLinks))
        \<and> (length (lookupURLs (urlsByTask s) taskID) < 3
             \<and> length (lookupURLs (urlsByTask s) taskID) + length urls \<le> 3 \<longrightarrow>
             (\<exists>s'. AddLinks s taskID urls = (s', None)
                \<and> lookupURLs (urlsByTask s') taskID = lookupURLs (urlsByTask s) taskID @ urls
                \<and> Tasks (repo s') taskID = Some (task\<lparr>Status := status_in_progress\<rparr>)
                \<and> (\<forall>k. k \<noteq> taskID \<longrightarrow>
                      Tasks (repo s') k = Tasks (repo s) k \<and> urlsByTask s' k = urlsByTask s k)
                \<and> taskCounter s' = taskCounter s
                \<and> activeTasksCounter s' = activeTasksCounter s
                \<and> filesCounter s' = filesCounter s
                \<and> cfg s' = cfg s)))"
  by (auto simp add: SaveTask_def AddLinks_def GetTask_def Let_def lookupURLs_def
      split: option.splits)

theorem AddLinks_spec_witness:
  "Tasks (repo demo_created) 7 = None
   \<and> AddLinks demo_created 7 demo_urls = (demo_created, Some ErrTaskNotFound)
   \<and> 3 \<le> length (lookupURLs (urlsByTask demo_linked) 1)
   \<and> AddLinks demo_linked 1 [''http://h/d.jpg''] = (demo_linked, Some ErrTooManyLinks)
   \<and> 3 < length (lookupURLs (urlsByTask demo_two) 1) + length [''http://h/c.jpg'', ''http://h/d.jpg'']
   \<and> AddLinks demo_two 1 [''http://h/c.jpg'', ''http://h/d.jpg''] = (demo_two, Some ErrTooManyLinks)
   \<and> length (lookupURLs (urlsByTask demo_two) 1) + length [''http://h/c.jpg''] \<le> 3
   \<and> lookupURLs (urlsByTask (fst (AddLinks demo_two 1 [''http://h/c.jpg'']))) 1 = demo_urls
   \<and> snd (AddLinks demo_two 1 [''http://h/c.jpg'']) = None"
proof -
  let ?t = "\<lparr>ID = 1, Status = status_in_progress, URLs = [], ArchivePath = ''../archives/Task_01''\<rparr>"
  have none: "Tasks (repo demo_created) 7 = None"
    by (simp add: demo_created_eq)
  have t1: "Tasks (repo demo_linked) 1 = Some ?t \<and> ID ?t = 1"
    by (simp add: demo_linked_eq)
  have t2: "Tasks (repo demo_two) 1 = Some ?t \<and> ID ?t = 1"
    by (simp add: demo_two_eq)
  have l1: "lookupURLs (urlsByTask demo_linked) 1 = demo_urls"
    by (simp add: demo_linked_eq lookupURLs_def)
  have l2: "lookupURLs (urlsByTask demo_two) 1 = [''http://h/a.jpg'', ''http://h/b.png'']"
    by (simp add: demo_two_eq lookupURLs_def)
  show ?thesis
    using AddLinks_spec [where s = demo_created and taskID = 7 and urls = demo_urls] none
      AddLinks_spec [where s = demo_linked and taskID = 1 and task = ?t
        and urls = "[''http://h/d.jpg'']"] t1 l1
      AddLinks_spec [where s = demo_two and taskID = 1 and task = ?t
        and urls = "[''http://h/c.jpg'', ''http://h/d.jpg'']"] t2 l2
      AddLinks_spec [where s = demo_two and taskID = 1 and task = ?t
        and urls = "[''http://h/c.jpg'']"]
    by (auto simp add: demo_urls_def)
qed

text \<open>
  C5. For an existing task whose ledger holds fewer than 3 URLs, \<open>GetStatus\<close> returns
  the status "in progress" and the service and the world (registry, ledger, counters,
  disk, requests sent, log) exactly as they were.
\<close>

theorem GetStatus_few_links:
  "Tasks (repo s) taskID = Some task \<Longrightarrow> length (lookupURLs (urlsByTask s) taskID) < 3 \<Longrightarrow>
   GetStatus e s w taskID = ((s, w), Inr [''status'' \<mapsto> status_in_progress])"
  by (simp add: GetStatus_def GetTask_def Let_def)

theorem GetStatus_few_links_witness:
  "Tasks (repo demo_two) 1 \<noteq> None
   \<and> length (lookupURLs (urlsByTask demo_two) 1) = 2
   \<and> GetStatus env_up demo_two demo_world 1
       = ((demo_two, demo_world), Inr [''status'' \<mapsto> status_in_progress])"
proof -
  let ?t = "\<lparr>ID = 1, Status = status_in_progress, URLs = [], ArchivePath = ''../archives/Task_01''\<rparr>"
  have t: "Tasks (repo demo_two) 1 = Some ?t"
    by (simp add: demo_two_eq)
  have l: "length (lookupURLs (urlsByTask demo_two) 1) = 2"
    by (simp add: demo_two_eq lookupURLs_def)
  show ?thesis
    using GetStatus_few_links [of demo_two 1 ?t env_up demo_world] t l by simp
qed

subsection \<open>The download stage\<close>

lemma HasPrefix_iff: "HasPrefix s p \<longleftrightarrow> (\<exists>r. s = p @ r)"
  by (induction s p rule: HasPrefix.induct) auto




lemma contentTypeExt_Some:
  "contentTypeExt al ct = Some x \<Longrightarrow> \<exists>a\<in>set al. Contains ct a \<and> x = ''.'' @ a"
  by (induction al) (auto split: if_splits)



text \<open>After an accepted type check a download never ends with \<open>ErrInvalidFile\<close>.\<close>

lemma downloadFile_accepted:
  "checkType e (cfg s) w url = (w1, Inr ext) \<Longrightarrow>
   downloadFile e s w url taskID = ((s', w'), r) \<Longrightarrow>
   r \<noteq> Inl ErrInvalidFile
   \<and> (requests w' = requests w1 \<or> requests w' = requests w1 @ [(GET, url)])
   \<and> (os_fail e (NewRequest url) = None \<longrightarrow> requests w' = requests w1 @ [(GET, url)])"
  by (auto simp add: downloadFile_def Let_def send_def write_file_def
      split: option.splits sum.splits prod.splits if_splits)




text \<open>
  C8, as stated, fails: no size limit is enforced on the body. When the length is not
  declared (\<open>ContentLength = -1\<close>), a body of 20 bytes is stored whole although the
  configured maximum is 10.
\<close>

theorem downloadFile_unknown_length_counterexample:
  "sint (FileMaxSize (cfg demo_linked)) = 10
   \<and> http_get env_chunked ''http://h/a.jpg'' = Inr (- 1, ''0123456789abcdefghij'')
   \<and> snd (downloadFile env_chunked demo_linked demo_world ''http://h/a.jpg'' 1)
       = Inr ''../downloads/Task_01_1.jpg''
   \<and> disk (snd (fst (downloadFile env_chunked demo_linked demo_world ''http://h/a.jpg'' 1)))
        ''../downloads/Task_01_1.jpg'' = Some (Bytes ''0123456789abcdefghij'')
   \<and> length ''0123456789abcdefghij'' = 20"
  by (simp add: downloadFile_def checkType_def demo_linked_eq demo_cfg_def env_chunked_def
      ext_demo Let_def word_cmp preffileName_demo folderPathImg_def write_file_def send_def
      demo_world_def)

text \<open>
  C8, amended. Once the type check has accepted the URL and the GET request is
  answered: when the declared length exceeds the configured maximum, \<open>downloadFile\<close>
  fails with \<open>ErrFileTooLarge\<close>, writes no file and leaves the file counter alone; in
  every other case (an unknown length \<open>-1\<close> included), if the directory and the file
  can be created and the copy does not fail, the whole body is stored under the
  generated name, whatever its length.
\<close>

theorem downloadFile_size_check:
  assumes "checkType e (cfg s) w url = (w1, Inr ext)"
    and "os_fail e (NewRequest url) = None"
    and "http_get e url = Inr (contentLength, body)"
    and "fileName = ''../downloads/'' @ preffileName taskID (filesCounter s + 1) @ ext"
  shows
  "(FileMaxSize (cfg s) <s contentLength \<longrightarrow>
      downloadFile e s w url taskID = ((s, send GET url w1), Inl ErrFileTooLarge))
   \<and> (\<not> FileMaxSize (cfg s) <s contentLength
        \<and> os_fail e (MkdirAll ''../downloads'') = None
        \<and> os_fail e (Create fileName) = None
        \<and> copy_fail e fileName (Bytes body) = None \<longrightarrow>
      downloadFile e s w url taskID
        = ((s\<lparr>filesCounter := filesCounter s + 1\<rparr>,
            write_file fileName (Bytes body) (send GET url w1)),
           Inr fileName))"
  using assms by (simp add: downloadFile_def Let_def folderPathImg_def)

theorem downloadFile_size_check_witness:
  "checkType env_up (cfg (demo_linked\<lparr>cfg := demo_cfg\<lparr>FileMaxSize := 2\<rparr>\<rparr>)) demo_world ''http://h/a.jpg''
     = (demo_world, Inr ''.jpg'')
   \<and> http_get env_up ''http://h/a.jpg'' = Inr (3, ''abc'')
   \<and> (2::int64) <s 3
   \<and> snd (downloadFile env_up (demo_linked\<lparr>cfg := demo_cfg\<lparr>FileMaxSize := 2\<rparr>\<rparr>) demo_world
            ''http://h/a.jpg'' 1) = Inl ErrFileTooLarge
   \<and> disk (snd (fst (downloadFile env_up (demo_linked\<lparr>cfg := demo_cfg\<lparr>FileMaxSize := 2\<rparr>\<rparr>)
            demo_world ''http://h/a.jpg'' 1))) = Map.empty
   \<and> checkType env_chunked (cfg demo_linked) demo_world ''http://h/a.jpg'' = (demo_world, Inr ''.jpg'')
   \<and> http_get env_chunked ''http://h/a.jpg'' = Inr (- 1, ''0123456789abcdefghij'')
   \<and> \<not> (10::int64) <s - 1
   \<and> downloadFile env_chunked demo_linked demo_world ''http://h/a.jpg'' 1
       = ((demo_linked\<lparr>filesCounter := 1\<rparr>,
           write_file ''../downloads/Task_01_1.jpg'' (Bytes ''0123456789abcdefghij'')
             (send GET ''http://h/a.jpg'' demo_world)),
          Inr ''../downloads/Task_01_1.jpg'')"
proof -
  let ?s = "demo_linked\<lparr>cfg := demo_cfg\<lparr>FileMaxSize := 2\<rparr>\<rparr>"
  have c1: "checkType env_up (cfg ?s) demo_world ''http://h/a.jpg'' = (demo_world, Inr ''.jpg'')"
    by (simp add: checkType_def demo_cfg_def ext_demo)
  have c2: "checkType env_chunked (cfg demo_linked) demo_world ''http://h/a.jpg''
      = (demo_world, Inr ''.jpg'')"
    by (simp add: checkType_def demo_linked_eq demo_cfg_def ext_demo)
  have env: "os_fail env_up c = None" "os_fail env_chunked c = None"
    "copy_fail env_chunked p x = None"
    "http_get env_up u = Inr (3, ''abc'')"
    "http_get env_chunked u = Inr (- 1, ''0123456789abcdefghij'')" for c u p x
    by (simp_all add: env_up_def env_chunked_def)
  have lt: "(2::int64) <s 3"
    by (simp add: word_sless_alt)
  have m: "FileMaxSize (cfg ?s) = 2" "FileMaxSize (cfg demo_linked) = 10"
    "filesCounter demo_linked = 0" "filesCounter ?s = 0"
    by (simp_all add: demo_linked_eq demo_cfg_def)
  note big = downloadFile_size_check [OF c1 env(1) env(4) refl, of 1]
  note small = downloadFile_size_check [OF c2 env(2) env(5) refl, of 1]
  have r1: "downloadFile env_up ?s demo_world ''http://h/a.jpg'' 1
      = ((?s, send GET ''http://h/a.jpg'' demo_world), Inl ErrFileTooLarge)"
    using big lt by (simp add: m)
  have r2: "downloadFile env_chunked demo_linked demo_world ''http://h/a.jpg'' 1
       = ((demo_linked\<lparr>filesCounter := 1\<rparr>,
           write_file ''../downloads/Task_01_1.jpg'' (Bytes ''0123456789abcdefghij'')
             (send GET ''http://h/a.jpg'' demo_world)),
          Inr ''../downloads/Task_01_1.jpg'')"
    using small by (simp add: m env word_cmp preffileName_demo)
  show ?thesis
    using c1 c2 r1 r2 lt by (simp add: env word_cmp send_def demo_world_def)
qed

subsection \<open>What the download loop leaves alone\<close>

lemma checkType_disk: "checkType e c w url = (w1, r) \<Longrightarrow> disk w1 = disk w"
  by (auto simp add: checkType_def Let_def log_line_def send_def
      split: option.splits sum.splits if_splits)

lemma downloadFile_service:
  "downloadFile e s w url taskID = ((s', w'), r) \<Longrightarrow> s' = s\<lparr>filesCounter := filesCounter s'\<rparr>"
  by (auto simp add: downloadFile_def Let_def
      split: option.splits sum.splits prod.splits if_splits)

lemma downloadFile_disk:
  assumes "downloadFile e s w url taskID = ((s', w'), r)"
    and "\<not> HasPrefix p ''../downloads/''"
  shows "disk w' p = disk w p"
proof -
  obtain w1 x where c: "checkType e (cfg s) w url = (w1, x)"
    by (cases "checkType e (cfg s) w url")
  have name: "p \<noteq> folderPathImg @ ''/'' @ rest" for rest
    using assms(2) by (auto simp add: HasPrefix_iff folderPathImg_def)
  from assms(1) c have "disk w' p = disk w1 p"
    using name
    by (auto simp add: downloadFile_def Let_def send_def write_file_def
        split: option.splits sum.splits prod.splits if_splits)
  with checkType_disk [OF c] show ?thesis by simp
qed

lemma downloadAll_service:
  "downloadAll e s w us taskID = ((s', w'), files) \<Longrightarrow> s' = s\<lparr>filesCounter := filesCounter s'\<rparr>"
proof (induction us arbitrary: s w s' w' files)
  case Nil
  then show ?case by simp
next
  case (Cons u us)
  obtain s1 w1 r where d: "downloadFile e s w u taskID = ((s1, w1), r)"
    by (metis prod.exhaust)
  have s1: "s1 = s\<lparr>filesCounter := filesCounter s1\<rparr>"
    by (rule downloadFile_service [OF d])
  obtain w2 fs where rest: "downloadAll e s1 w2 us taskID = ((s', w'), fs)"
    using Cons.prems d by (auto split: sum.splits prod.splits)
  have "s' = s1\<lparr>filesCounter := filesCounter s'\<rparr>"
    by (rule Cons.IH [OF rest])
  then have "s' = s\<lparr>filesCounter := filesCounter s1\<rparr>\<lparr>filesCounter := filesCounter s'\<rparr>"
    using s1 by simp
  then show ?case by simp
qed

lemma downloadAll_disk:
  "downloadAll e s w us taskID = ((s', w'), files) \<Longrightarrow> \<not> HasPrefix p ''../downloads/'' \<Longrightarrow>
   disk w' p = disk w p"
proof (induction us arbitrary: s w s' w' files)
  case Nil
  then show ?case by simp
next
  case (Cons u us)
  obtain s1 w1 r where d: "downloadFile e s w u taskID = ((s1, w1), r)"
    by (metis prod.exhaust)
  have w1: "disk w1 p = disk w p"
    by (rule downloadFile_disk [OF d Cons.prems(2)])
  show ?case
  proof (cases r)
    case (Inl err)
    with Cons.prems(1) d
    have "downloadAll e s1 (log_line LevelWarn DownloadFailed w1) us taskID = ((s', w'), files)"
      by simp
    from Cons.IH [OF this Cons.prems(2)] w1 show ?thesis
      by (simp add: log_line_def)
  next
    case (Inr filePath)
    with Cons.prems(1) d obtain fs where "downloadAll e s1 w1 us taskID = ((s', w'), fs)"
      by (auto split: prod.splits)
    from Cons.IH [OF this Cons.prems(2)] w1 show ?thesis
      by simp
  qed
qed

subsection \<open>A pipeline in which no download succeeds\<close>

lemma GetStatus_all_failed:
  assumes "Tasks (repo s) taskID = Some task"
    and "3 \<le> length (lookupURLs (urlsByTask s) taskID)"
    and "downloadAll e s w (lookupURLs (urlsByTask s) taskID) taskID = ((s1, w1), [])"
  shows "GetStatus e s w taskID
    = ((s1\<lparr>repo := (repo s1)\<lparr>Tasks := (Tasks (repo s1))(ID task \<mapsto> task\<lparr>Status := status_failed\<rparr>)\<rparr>\<rparr>,
        w1),
       Inr [''status'' \<mapsto> ''failed''])"
  using assms by (simp add: GetStatus_def GetTask_def Let_def saveLogged_def SaveTask_def)

lemma status_strings_differ:
  "''failed'' \<noteq> status_failed" "status_completed \<noteq> status_failed"
  "status_completed \<noteq> status_in_progress" "status_completed \<noteq> ''failed''"
  by (simp_all add: status_failed_def status_completed_def status_in_progress_def)

lemma demo_all_fail:
  "cfg s = demo_cfg \<Longrightarrow>
   downloadAll env_down s w demo_urls i
     = ((s, w\<lparr>requests := requests w @ [(GET, ''http://h/a.jpg''), (GET, ''http://h/b.png''),
                                          (GET, ''http://h/c.jpg'')],
             logged := logged w @ [(LevelWarn, DownloadFailed), (LevelWarn, DownloadFailed),
                                    (LevelWarn, DownloadFailed)]\<rparr>), [])"
  by (simp add: demo_urls_def downloadFile_def checkType_def demo_cfg_def env_down_def
      ext_demo send_def log_line_def Let_def)

text \<open>
  C1 does not hold of the code: a task that ends in the failed status keeps its slot.
  When the pipeline runs and no URL is downloaded, \<open>GetStatus\<close> stores the failed
  status and leaves the active-task counter as it was; so, with the counter at 3, the
  next \<open>CreateTask\<close> is still refused although the task has reached a terminal state.
\<close>

theorem failed_task_keeps_its_slot:
  assumes "Tasks (repo s) taskID = Some task" and "ID task = taskID"
    and "3 \<le> length (lookupURLs (urlsByTask s) taskID)"
    and "snd (downloadAll e s w (lookupURLs (urlsByTask s) taskID) taskID) = []"
    and "GetStatus e s w taskID = ((s', w'), r)"
  shows "Tasks (repo s') taskID = Some (task\<lparr>Status := status_failed\<rparr>)
    \<and> activeTasksCounter s' = activeTasksCounter s
    \<and> (3 \<le>s activeTasksCounter s \<longrightarrow> CreateTask s' = (s', Inl ErrServerBusy))"
proof -
  obtain s1 w1 where d:
    "downloadAll e s w (lookupURLs (urlsByTask s) taskID) taskID = ((s1, w1), [])"
    using assms(4) by (metis prod.exhaust snd_conv)
  have s1: "s1 = s\<lparr>filesCounter := filesCounter s1\<rparr>"
    by (rule downloadAll_service [OF d])
  have "activeTasksCounter s1 = activeTasksCounter s"
    by (subst s1) simp
  with GetStatus_all_failed [OF assms(1,3) d] assms(2,5) show ?thesis
    by (auto simp add: CreateTask_def)
qed

theorem failed_task_keeps_its_slot_witness:
  "Tasks (repo demo_full) 1
     = Some \<lparr>ID = 1, Status = status_in_progress, URLs = [], ArchivePath = ''../archives/Task_01''\<rparr>
   \<and> length (lookupURLs (urlsByTask demo_full) 1) = 3
   \<and> snd (downloadAll env_down demo_full demo_world (lookupURLs (urlsByTask demo_full) 1) 1) = []
   \<and> 3 \<le>s activeTasksCounter demo_full
   \<and> Tasks (repo (fst (fst (GetStatus env_down demo_full demo_world 1)))) 1
       = Some \<lparr>ID = 1, Status = status_failed, URLs = [], ArchivePath = ''../archives/Task_01''\<rparr>
   \<and> activeTasksCounter (fst (fst (GetStatus env_down demo_full demo_world 1))) = 3
   \<and> snd (CreateTask (fst (fst (GetStatus env_down demo_full demo_world 1)))) = Inl ErrServerBusy"
proof -
  let ?t = "\<lparr>ID = 1, Status = status_in_progress, URLs = [], ArchivePath = ''../archives/Task_01''\<rparr>"
  have t: "Tasks (repo demo_full) 1 = Some ?t" and i: "ID ?t = 1"
    and c: "activeTasksCounter demo_full = 3" and g: "cfg demo_full = demo_cfg"
    by (simp_all add: demo_full_eq)
  have l: "lookupURLs (urlsByTask demo_full) 1 = demo_urls"
    by (simp add: demo_full_eq lookupURLs_def)
  have n: "3 \<le> length (lookupURLs (urlsByTask demo_full) 1)"
    by (simp add: l demo_urls_def)
  have d: "snd (downloadAll env_down demo_full demo_world (lookupURLs (urlsByTask demo_full) 1) 1) = []"
    by (simp add: l demo_all_fail [OF g])
  have split: "GetStatus env_down demo_full demo_world 1
      = ((fst (fst (GetStatus env_down demo_full demo_world 1)),
          snd (fst (GetStatus env_down demo_full demo_world 1))),
         snd (GetStatus env_down demo_full demo_world 1))"
    by simp
  show ?thesis
    using failed_task_keeps_its_slot [OF t i n d split] t d
    by (simp add: c l demo_urls_def word_cmp)
qed

text \<open>
  C6 does not hold of the code: when the pipeline runs and no URL is downloaded,
  \<open>GetStatus\<close> stores the failed status (the Russian word) but returns the English
  literal \<open>failed\<close>, which is a different string. The rest of the claim holds: the
  status is stored, the answer has the single key \<open>status\<close>, and no file outside the
  download directory is created or changed (so no archive is).
\<close>

theorem failed_pipeline_answer:
  assumes "Tasks (repo s) taskID = Some task" and "ID task = taskID"
    and "3 \<le> length (lookupURLs (urlsByTask s) taskID)"
    and "snd (downloadAll e s w (lookupURLs (urlsByTask s) taskID) taskID) = []"
    and "GetStatus e s w taskID = ((s', w'), r)"
  shows "r = Inr [''status'' \<mapsto> ''failed'']
    \<and> map_option Status (Tasks (repo s') taskID) = Some status_failed
    \<and> ''failed'' \<noteq> status_failed
    \<and> (\<forall>p. \<not> HasPrefix p ''../downloads/'' \<longrightarrow> disk w' p = disk w p)"
proof -
  obtain s1 w1 where d:
    "downloadAll e s w (lookupURLs (urlsByTask s) taskID) taskID = ((s1, w1), [])"
    using assms(4) by (metis prod.exhaust snd_conv)
  have "\<not> HasPrefix p ''../downloads/'' \<Longrightarrow> disk w1 p = disk w p" for p
    by (rule downloadAll_disk [OF d])
  with GetStatus_all_failed [OF assms(1,3) d] assms(2,5) show ?thesis
    by (auto simp add: status_strings_differ)
qed

theorem failed_pipeline_answer_witness:
  "Tasks (repo demo_linked) 1
     = Some \<lparr>ID = 1, Status = status_in_progress, URLs = [], ArchivePath = ''../archives/Task_01''\<rparr>
   \<and> length (lookupURLs (urlsByTask demo_linked) 1) = 3
   \<and> snd (downloadAll env_down demo_linked demo_world (lookupURLs (urlsByTask demo_linked) 1) 1) = []
   \<and> snd (GetStatus env_down demo_linked demo_world 1) = Inr [''status'' \<mapsto> ''failed'']
   \<and> map_option Status (Tasks (repo (fst (fst (GetStatus env_down demo_linked demo_world 1)))) 1)
       = Some status_failed
   \<and> ''failed'' \<noteq> status_failed
   \<and> disk (snd (fst (GetStatus env_down demo_linked demo_world 1))) ''../archives/Task_01.zip'' = None"
proof -
  let ?t = "\<lparr>ID = 1, Status = status_in_progress, URLs = [], ArchivePath = ''../archives/Task_01''\<rparr>"
  have t: "Tasks (repo demo_linked) 1 = Some ?t" and i: "ID ?t = 1"
    and g: "cfg demo_linked = demo_cfg"
    by (simp_all add: demo_linked_eq)
  have l: "lookupURLs (urlsByTask demo_linked) 1 = demo_urls"
    by (simp add: demo_linked_eq lookupURLs_def)
  have n: "3 \<le> length (lookupURLs (urlsByTask demo_linked) 1)"
    by (simp add: l demo_urls_def)
  have d: "snd (downloadAll env_down demo_linked demo_world (lookupURLs (urlsByTask demo_linked) 1) 1) = []"
    by (simp add: l demo_all_fail [OF g])
  have split: "GetStatus env_down demo_linked demo_world 1
      = ((fst (fst (GetStatus env_down demo_linked demo_world 1)),
          snd (fst (GetStatus env_down demo_linked demo_world 1))),
         snd (GetStatus env_down demo_linked demo_world 1))"
    by simp
  have p: "\<not> HasPrefix ''../archives/Task_01.zip'' ''../downloads/''"
    by simp
  show ?thesis
    using failed_pipeline_answer [OF t i n d split] t d p
    by (simp add: l demo_urls_def demo_world_def)
qed

subsection \<open>The archive stage\<close>

lemma zipLoop_all_added:
  "\<forall>p\<in>set files. disk w p = Some (content p) \<and> os_fail e (Open p) = None
      \<and> os_fail e (ZipCreate (Base p)) = None \<and> copy_fail e (Base p) (content p) = None \<Longrightarrow>
   zipLoop e w files entries = (w, entries @ map (\<lambda>p. (Base p, content p)) files, None)"
  by (induction files arbitrary: entries) simp_all

lemma createZipArchive_built:
  assumes "Tasks (repo s) taskID = Some task"
    and "archiveName = ArchivePath task @ ''.zip''"
    and "archiveName \<notin> set files"
    and "\<forall>p\<in>set files. disk w p = Some (content p) \<and> os_fail e (Open p) = None
           \<and> os_fail e (ZipCreate (Base p)) = None \<and> copy_fail e (Base p) (content p) = None"
    and "os_fail e (MkdirAll ''../archives'') = None"
    and "os_fail e (Create archiveName) = None"
    and "close_fail e archiveName (ZipFile (map (\<lambda>p. (Base p, content p)) files)) = None"
  shows "createZipArchive e s w taskID files
    = (write_file archiveName (ZipFile (map (\<lambda>p. (Base p, content p)) files)) w,
       Inr (''archives/'' @ zipName taskID @ ''.zip''))"
proof -
  let ?w = "write_file archiveName (Bytes []) w"
  have "\<forall>p\<in>set files. disk ?w p = Some (content p) \<and> os_fail e (Open p) = None
      \<and> os_fail e (ZipCreate (Base p)) = None \<and> copy_fail e (Base p) (content p) = None"
    using assms(3,4) by (auto simp add: write_file_def)
  from zipLoop_all_added [OF this, of "[]"] assms(1,2,5,6,7) show ?thesis
    by (simp add: createZipArchive_def zipPath_def folderPath_def write_file_def)
qed

lemma deleteFiles_only_removes:
  "deleteFiles e w files = (w', r) \<Longrightarrow>
   (disk w' p = None \<or> disk w' p = disk w p) \<and> (p \<notin> set files \<longrightarrow> disk w' p = disk w p)
   \<and> requests w' = requests w \<and> logged w' = logged w"
proof (induction files arbitrary: w)
  case Nil
  then show ?case by simp
next
  case (Cons f fs)
  show ?case
  proof (cases "os_fail e (Stat f)")
    case (Some msg)
    with Cons.prems show ?thesis by simp
  next
    case None
    show ?thesis
    proof (cases "disk w f")
      case absent: None
      with None Cons.prems have "deleteFiles e w fs = (w', r)"
        by simp
      from Cons.IH [OF this] show ?thesis by auto
    next
      case present: (Some content)
      show ?thesis
      proof (cases "os_fail e (Remove f)")
        case (Some msg)
        with None present Cons.prems show ?thesis by simp
      next
        case removed: None
        with None present Cons.prems have "deleteFiles e (remove_file f w) fs = (w', r)"
          by simp
        from Cons.IH [OF this] show ?thesis
          by (auto simp add: remove_file_def split: if_splits)
      qed
    qed
  qed
qed

lemma deleteFiles_all_removed:
  "deleteFiles e w files = (w', None) \<Longrightarrow> p \<in> set files \<Longrightarrow> disk w' p = None"
proof (induction files arbitrary: w)
  case Nil
  then show ?case by simp
next
  case (Cons f fs)
  obtain w1 where step: "deleteFiles e w1 fs = (w', None)" and gone: "disk w1 f = None"
    using Cons.prems(1)
    by (auto simp add: remove_file_def split: option.splits)
  show ?case
  proof (cases "p \<in> set fs")
    case True
    then show ?thesis by (rule Cons.IH [OF step])
  next
    case False
    with Cons.prems(2) have "p = f" by simp
    with deleteFiles_only_removes [OF step, of f] gone show ?thesis by auto
  qed
qed

lemma GetStatus_completed:
  assumes "Tasks (repo s) taskID = Some task"
    and "3 \<le> length (lookupURLs (urlsByTask s) taskID)"
    and "downloadAll e s w (lookupURLs (urlsByTask s) taskID) taskID = ((s1, w1), files)"
    and "files \<noteq> []"
    and "createZipArchive e s1 w1 taskID files = (w2, Inr archivePath)"
    and "deleteFiles e w2 files = (w3, derr)"
  shows "GetStatus e s w taskID
    = ((s1\<lparr>activeTasksCounter := activeTasksCounter s1 - 1,
           repo := (repo s1)\<lparr>Tasks := (Tasks (repo s1))(ID task \<mapsto>
                      task\<lparr>Status := status_completed, ArchivePath := archivePath\<rparr>)\<rparr>\<rparr>,
        case derr of None \<Rightarrow> w3 | Some err \<Rightarrow> log_line LevelError DeleteFailed w3),
       Inr [''status'' \<mapsto> status_completed,
            ''archive_url'' \<mapsto> ''http://localhost:'' @ FormatInt (sint (ServerPort (cfg s)))
                                  @ ''/'' @ archivePath])"
  using assms
  by (simp add: GetStatus_def GetTask_def Let_def saveLogged_def SaveTask_def)

subsection \<open>The example runs, evaluated\<close>

lemma preffileName_demo2:
  "preffileName 1 4 = ''Task_01_4''" "preffileName 1 5 = ''Task_01_5''"
  "preffileName 1 6 = ''Task_01_6''"
  by (simp_all add: preffileName_def FormatInt_def digits10_small digit_def word_cmp)

lemma port_demo: "FormatInt 8080 = ''8080''" "FormatInt (sint (8080::int64)) = ''8080''"
  by (simp_all add: FormatInt_def digits10.simps digit_def)

text \<open>
  The three downloads of the example task in an environment that serves three bytes for
  every URL and in which at most removals fail: the first run, and a second run.
\<close>

lemma demo_download_first:
  assumes "\<And>c. (\<forall>p. c \<noteq> Remove p) \<Longrightarrow> os_fail e c = None"
    and "\<And>p c. copy_fail e p c = None"
    and "\<And>u. http_get e u = Inr (3, ''abc'')"
    and "cfg s = demo_cfg" and "filesCounter s = 0"
  shows "downloadAll e s w demo_urls 1
    = ((s\<lparr>filesCounter := 3\<rparr>,
        w\<lparr>disk := (disk w)(''../downloads/Task_01_1.jpg'' \<mapsto> Bytes ''abc'',
                             ''../downloads/Task_01_2.png'' \<mapsto> Bytes ''abc'',
                             ''../downloads/Task_01_3.jpg'' \<mapsto> Bytes ''abc''),
           requests := requests w @ [(GET, ''http://h/a.jpg''), (GET, ''http://h/b.png''),
                                      (GET, ''http://h/c.jpg'')]\<rparr>),
       demo_files)"
  using assms
  by (simp add: demo_urls_def demo_files_def downloadFile_def checkType_def demo_cfg_def
      ext_demo send_def Let_def word_cmp preffileName_demo folderPathImg_def write_file_def)

lemma demo_download_second:
  assumes "\<And>c. (\<forall>p. c \<noteq> Remove p) \<Longrightarrow> os_fail e c = None"
    and "\<And>p c. copy_fail e p c = None"
    and "\<And>u. http_get e u = Inr (3, ''abc'')"
    and "cfg s = demo_cfg" and "filesCounter s = 3"
  shows "downloadAll e s w demo_urls 1
    = ((s\<lparr>filesCounter := 6\<rparr>,
        w\<lparr>disk := (disk w)(''../downloads/Task_01_4.jpg'' \<mapsto> Bytes ''abc'',
                             ''../downloads/Task_01_5.png'' \<mapsto> Bytes ''abc'',
                             ''../downloads/Task_01_6.jpg'' \<mapsto> Bytes ''abc''),
           requests := requests w @ [(GET, ''http://h/a.jpg''), (GET, ''http://h/b.png''),
                                      (GET, ''http://h/c.jpg'')]\<rparr>),
       [''../downloads/Task_01_4.jpg'', ''../downloads/Task_01_5.png'',
        ''../downloads/Task_01_6.jpg''])"
  using assms
  by (simp add: demo_urls_def downloadFile_def checkType_def demo_cfg_def
      ext_demo send_def Let_def word_cmp preffileName_demo2 folderPathImg_def write_file_def)

lemma env_up_simps:
  "os_fail env_up c = None" "copy_fail env_up p x = None" "http_get env_up u = Inr (3, ''abc'')"
  "close_fail env_up p x = None"
  by (simp_all add: env_up_def)

lemma env_locked_simps:
  "(\<forall>p. c \<noteq> Remove p) \<Longrightarrow> os_fail env_locked c = None"
  "os_fail env_locked (Remove ''../downloads/Task_01_1.jpg'') = Some ''permission denied''"
  "copy_fail env_locked p x = None" "http_get env_locked u = Inr (3, ''abc'')"
  "close_fail env_locked p x = None"
  by (simp_all add: env_locked_def)

lemma demo_linked_simps:
  "Tasks (repo demo_linked) 1
     = Some \<lparr>ID = 1, Status = status_in_progress, URLs = [], ArchivePath = ''../archives/Task_01''\<rparr>"
  "lookupURLs (urlsByTask demo_linked) 1 = demo_urls"
  "cfg demo_linked = demo_cfg" "filesCounter demo_linked = 0"
  "activeTasksCounter demo_linked = 1"
  by (simp_all add: demo_linked_eq lookupURLs_def)

lemma demo_downloaded_eq:
  "demo_world\<lparr>disk := (disk demo_world)(''../downloads/Task_01_1.jpg'' \<mapsto> Bytes ''abc'',
                             ''../downloads/Task_01_2.png'' \<mapsto> Bytes ''abc'',
                             ''../downloads/Task_01_3.jpg'' \<mapsto> Bytes ''abc''),
           requests := requests demo_world @ [(GET, ''http://h/a.jpg''), (GET, ''http://h/b.png''),
                                      (GET, ''http://h/c.jpg'')]\<rparr> = demo_downloaded"
  by (simp add: demo_world_def demo_downloaded_def)

subsection \<open>Polling a task again\<close>

lemma checkType_requests:
  "checkType e c w url = (w1, x) \<Longrightarrow>
   requests w1 = requests w \<or> requests w1 = requests w @ [(HEAD, url)]"
  by (cases "os_fail e (NewRequest url)"; cases "http_head e url")
    (auto simp add: checkType_def Let_def log_line_def send_def split: option.splits if_splits)

lemma checkType_refused:
  "checkType e c w url = (w1, Inl err) \<Longrightarrow> os_fail e (NewRequest url) = None \<Longrightarrow>
   requests w1 = requests w @ [(HEAD, url)]"
  by (cases "http_head e url")
    (auto simp add: checkType_def Let_def log_line_def send_def split: option.splits if_splits)

lemma downloadFile_requests:
  assumes "downloadFile e s w url taskID = ((s', w'), r)"
  shows "\<exists>rs. requests w' = requests w @ rs
    \<and> (os_fail e (NewRequest url) = None \<longrightarrow> (HEAD, url) \<in> set rs \<or> (GET, url) \<in> set rs)"
proof -
  obtain w1 x where c: "checkType e (cfg s) w url = (w1, x)"
    by (cases "checkType e (cfg s) w url")
  obtain rs where rs: "requests w1 = requests w @ rs"
    using checkType_requests [OF c] by auto
  show ?thesis
  proof (cases x)
    case (Inl err)
    with assms c have w': "w' = w1"
      by (simp add: downloadFile_def)
    show ?thesis
    proof (cases "os_fail e (NewRequest url)")
      case None
      with checkType_refused [of e "cfg s" w url w1 err] c Inl w' show ?thesis
        by simp
    next
      case (Some msg)
      with rs w' show ?thesis by simp
    qed
  next
    case (Inr ext)
    with c have acc: "checkType e (cfg s) w url = (w1, Inr ext)"
      by simp
    note a = downloadFile_accepted [OF acc assms]
    show ?thesis
    proof (cases "os_fail e (NewRequest url)")
      case None
      with a rs have "requests w' = requests w @ (rs @ [(GET, url)])"
        by simp
      moreover have "(GET, url) \<in> set (rs @ [(GET, url)])"
        by simp
      ultimately show ?thesis by blast
    next
      case (Some msg)
      from a rs have "requests w' = requests w @ rs \<or> requests w' = requests w @ (rs @ [(GET, url)])"
        by auto
      with Some show ?thesis by auto
    qed
  qed
qed

lemma downloadAll_requests:
  "downloadAll e s w us taskID = ((s', w'), files) \<Longrightarrow>
   \<exists>rs. requests w' = requests w @ rs
     \<and> (\<forall>u\<in>set us. os_fail e (NewRequest u) = None \<longrightarrow>
           (HEAD, u) \<in> set rs \<or> (GET, u) \<in> set rs)"
proof (induction us arbitrary: s w files)
  case Nil
  then show ?case by simp
next
  case (Cons u us)
  obtain s1 w1 r where d: "downloadFile e s w u taskID = ((s1, w1), r)"
    by (metis prod.exhaust)
  from downloadFile_requests [OF d] obtain rs1 where "requests w1 = requests w @ rs1
    \<and> (os_fail e (NewRequest u) = None \<longrightarrow> (HEAD, u) \<in> set rs1 \<or> (GET, u) \<in> set rs1)"
    by (rule exE)
  then have rs1: "requests w1 = requests w @ rs1"
    and first: "os_fail e (NewRequest u) = None \<longrightarrow> (HEAD, u) \<in> set rs1 \<or> (GET, u) \<in> set rs1"
    by simp_all
  have "\<exists>w2 fs. downloadAll e s1 w2 us taskID = ((s', w'), fs) \<and> requests w2 = requests w1"
  proof (cases r)
    case (Inl err)
    with Cons.prems d
    have "downloadAll e s1 (log_line LevelWarn DownloadFailed w1) us taskID = ((s', w'), files)"
      by simp
    moreover have "requests (log_line LevelWarn DownloadFailed w1) = requests w1"
      by (simp add: log_line_def)
    ultimately show ?thesis by (intro exI conjI)
  next
    case (Inr filePath)
    with Cons.prems d obtain fs where "downloadAll e s1 w1 us taskID = ((s', w'), fs)"
      by (auto split: prod.splits)
    then show ?thesis by (intro exI conjI) simp_all
  qed
  then obtain w2 fs where rest: "downloadAll e s1 w2 us taskID = ((s', w'), fs)"
    and w2: "requests w2 = requests w1"
    by (elim exE conjE)
  from Cons.IH [OF rest] obtain rs2 where "requests w' = requests w2 @ rs2
    \<and> (\<forall>v\<in>set us. os_fail e (NewRequest v) = None \<longrightarrow>
        (HEAD, v) \<in> set rs2 \<or> (GET, v) \<in> set rs2)"
    by (rule exE)
  then have rs2: "requests w' = requests w2 @ rs2"
    and others: "\<forall>v\<in>set us. os_fail e (NewRequest v) = None \<longrightarrow>
        (HEAD, v) \<in> set rs2 \<or> (GET, v) \<in> set rs2"
    by simp_all
  have a: "requests w' = requests w @ (rs1 @ rs2)"
    using rs1 rs2 w2 by simp
  have b: "\<forall>v\<in>set (u # us). os_fail e (NewRequest v) = None \<longrightarrow>
      (HEAD, v) \<in> set (rs1 @ rs2) \<or> (GET, v) \<in> set (rs1 @ rs2)"
    using first others by auto
  from a b show ?case
    by (intro exI [of _ "rs1 @ rs2"] conjI)
qed

lemma zipLoop_requests: "zipLoop e w files entries = (w', x) \<Longrightarrow> requests w' = requests w"
proof (induction files arbitrary: w entries)
  case Nil
  then show ?case by simp
next
  case (Cons f fs)
  show ?case
  proof (cases "if os_fail e (Open f) = None then disk w f else None")
    case None
    with Cons.prems have "zipLoop e (log_line LevelWarn OpenFailed w) fs entries = (w', x)"
      by simp
    from Cons.IH [OF this] show ?thesis
      by (simp add: log_line_def)
  next
    case opened: (Some content)
    show ?thesis
    proof (cases "os_fail e (ZipCreate (Base f))")
      case (Some msg)
      with opened Cons.prems show ?thesis by simp
    next
      case created: None
      show ?thesis
      proof (cases "copy_fail e (Base f) content")
        case None
        with opened created Cons.prems
        have "zipLoop e w fs (entries @ [(Base f, content)]) = (w', x)"
          by simp
        from Cons.IH [OF this] show ?thesis .
      next
        case (Some failure)
        with opened created Cons.prems show ?thesis
          by (cases failure) simp
      qed
    qed
  qed
qed

lemma createZipArchive_result:
  assumes "createZipArchive e s w taskID files = (w', r)"
  shows "requests w' = requests w
    \<and> (\<forall>p. r = Inr p \<longrightarrow> p = ''archives/'' @ zipName taskID @ ''.zip'')"
proof (cases "os_fail e (MkdirAll zipPath)")
  case (Some msg)
  with assms show ?thesis by (auto simp add: createZipArchive_def)
next
  case dir: None
  let ?name = "(case Tasks (repo s) taskID of None \<Rightarrow> [] | Some task \<Rightarrow> ArchivePath task) @ ''.zip''"
  show ?thesis
  proof (cases "os_fail e (Create ?name)")
    case (Some msg)
    with dir assms show ?thesis by (auto simp add: createZipArchive_def)
  next
    case None
    obtain w1 entries x where z: "zipLoop e (write_file ?name (Bytes []) w) files [] = (w1, entries, x)"
      by (metis prod.exhaust)
    have "requests w1 = requests w"
      using zipLoop_requests [OF z] by (simp add: write_file_def)
    with dir None z assms show ?thesis
      by (cases x) (auto simp add: createZipArchive_def Let_def write_file_def folderPath_def)
  qed
qed

lemma createZipArchive_path_only:
  "map_option ArchivePath (Tasks (repo s) taskID) = map_option ArchivePath (Tasks (repo s0) taskID)
   \<Longrightarrow> createZipArchive e s w taskID files = createZipArchive e s0 w taskID files"
  by (auto simp add: createZipArchive_def split: option.splits)

lemma downloadFile_other_repo:
  "downloadFile e (s\<lparr>repo := x\<rparr>) w u taskID
     = (case downloadFile e s w u taskID of ((s', w'), r) \<Rightarrow> ((s'\<lparr>repo := x\<rparr>, w'), r))"
proof -
  obtain w1 c where c: "checkType e (cfg s) w u = (w1, c)"
    by (cases "checkType e (cfg s) w u")
  show ?thesis
  proof (cases c)
    case (Inl err)
    with c show ?thesis by (simp add: downloadFile_def)
  next
    case (Inr ext)
    show ?thesis
    proof (cases "os_fail e (NewRequest u)")
      case (Some msg)
      with c Inr show ?thesis by (simp add: downloadFile_def)
    next
      case None
      show ?thesis
      proof (cases "http_get e u")
        case (Inl msg)
        with c Inr None show ?thesis by (simp add: downloadFile_def)
      next
        case answer: (Inr a)
        obtain len body where a: "a = (len, body)"
          by (cases a)
        with c Inr None answer show ?thesis
          by (simp add: downloadFile_def Let_def split: option.split prod.split)
      qed
    qed
  qed
qed

lemma downloadAll_other_repo:
  "downloadAll e s w us taskID = ((s', w'), files) \<Longrightarrow>
   downloadAll e (s\<lparr>repo := x\<rparr>) w us taskID = ((s'\<lparr>repo := x\<rparr>, w'), files)"
proof (induction us arbitrary: s w files)
  case Nil
  then show ?case by simp
next
  case (Cons u us)
  obtain s1 w1 r where d: "downloadFile e s w u taskID = ((s1, w1), r)"
    by (metis prod.exhaust)
  have d': "downloadFile e (s\<lparr>repo := x\<rparr>) w u taskID = ((s1\<lparr>repo := x\<rparr>, w1), r)"
    by (simp add: downloadFile_other_repo d)
  show ?case
  proof (cases r)
    case (Inl err)
    with Cons.prems d
    have "downloadAll e s1 (log_line LevelWarn DownloadFailed w1) us taskID = ((s', w'), files)"
      by simp
    from Cons.IH [OF this] d' Inl show ?thesis by simp
  next
    case (Inr filePath)
    with Cons.prems d obtain fs where rest: "downloadAll e s1 w1 us taskID = ((s', w'), fs)"
      and files: "files = filePath # fs"
      by (auto split: prod.splits)
    from Cons.IH [OF rest] d' Inr files show ?thesis by simp
  qed
qed

lemma completed_is_no_failure:
  "''failed'' \<noteq> status_completed" "status_failed \<noteq> status_completed"
  by (simp_all add: status_failed_def status_completed_def)

lemma GetStatus_requests:
  assumes "Tasks (repo s) taskID = Some task"
    and "3 \<le> length (lookupURLs (urlsByTask s) taskID)"
    and "downloadAll e s w (lookupURLs (urlsByTask s) taskID) taskID = ((s1, w1), files)"
    and "GetStatus e s w taskID = ((s', w'), r)"
  shows "requests w' = requests w1
    \<and> (\<forall>m. r = Inr m \<and> m ''status'' = Some status_completed \<longrightarrow>
          m = [''status'' \<mapsto> status_completed,
               ''archive_url'' \<mapsto> ''http://localhost:'' @ FormatInt (sint (ServerPort (cfg s)))
                                     @ ''/archives/'' @ zipName taskID @ ''.zip''])"
proof (cases "files = []")
  case True
  with GetStatus_all_failed [OF assms(1,2)] assms(3,4)
  have "r = Inr [''status'' \<mapsto> ''failed'']" and "w' = w1"
    by simp_all
  then show ?thesis
    by (auto simp add: completed_is_no_failure)
next
  case False
  obtain w2 a where z: "createZipArchive e s1 w1 taskID files = (w2, a)"
    by (cases "createZipArchive e s1 w1 taskID files")
  note zr = createZipArchive_result [OF z]
  show ?thesis
  proof (cases a)
    case (Inl err)
    with assms False z zr
    have "r = Inr [''status'' \<mapsto> status_failed]" and "requests w' = requests w1"
      by (auto simp add: GetStatus_def GetTask_def Let_def saveLogged_def SaveTask_def
          log_line_def)
    then show ?thesis
      by (auto simp add: completed_is_no_failure)
  next
    case (Inr archivePath)
    obtain w3 derr where del: "deleteFiles e w2 files = (w3, derr)"
      by (cases "deleteFiles e w2 files")
    have same: "requests w3 = requests w2"
      using deleteFiles_only_removes [OF del, of "[]"] by simp
    from zr Inr have path: "archivePath = ''archives/'' @ zipName taskID @ ''.zip''"
      by simp
    from z Inr have z': "createZipArchive e s1 w1 taskID files = (w2, Inr archivePath)"
      by simp
    note run = GetStatus_completed [OF assms(1,2,3) False z' del]
    from run assms(4) have r: "r = Inr [''status'' \<mapsto> status_completed,
            ''archive_url'' \<mapsto> ''http://localhost:'' @ FormatInt (sint (ServerPort (cfg s)))
                                  @ ''/'' @ archivePath]"
      and w': "w' = (case derr of None \<Rightarrow> w3 | Some err \<Rightarrow> log_line LevelError DeleteFailed w3)"
      by simp_all
    have "requests w' = requests w1"
      using w' same zr by (cases derr) (simp_all add: log_line_def)
    with r path show ?thesis by simp
  qed
qed

text \<open>
  C2, amended. \<open>GetStatus\<close> never reads the stored status. For a task whose ledger
  holds 3 URLs, a call does exactly what it does when the stored status is replaced by
  any other string \<open>st\<close>: the same result, the same service state and the same world
  afterwards, whether the task was completed, failed or in progress. So every such
  call runs the pipeline: it sends a request for each URL of the ledger for which a
  request can be built. A result that reports the completed status is always the same
  one: that status and the archive URL built from the port and the task ID.
\<close>

theorem GetStatus_ignores_stored_status:
  assumes "Tasks (repo s) taskID = Some task" and "ID task = taskID"
    and "3 \<le> length (lookupURLs (urlsByTask s) taskID)"
    and "GetStatus e s w taskID = ((s', w'), r)"
  shows "GetStatus e (s\<lparr>repo := (repo s)\<lparr>Tasks := (Tasks (repo s))(taskID \<mapsto>
                          task\<lparr>Status := st\<rparr>)\<rparr>\<rparr>) w taskID = ((s', w'), r)
    \<and> (\<exists>rs. requests w' = requests w @ rs
          \<and> (\<forall>u\<in>set (lookupURLs (urlsByTask s) taskID). os_fail e (NewRequest u) = None \<longrightarrow>
                (HEAD, u) \<in> set rs \<or> (GET, u) \<in> set rs))
    \<and> (\<forall>m. r = Inr m \<and> m ''status'' = Some status_completed \<longrightarrow>
          m = [''status'' \<mapsto> status_completed,
               ''archive_url'' \<mapsto> ''http://localhost:'' @ FormatInt (sint (ServerPort (cfg s)))
                                     @ ''/archives/'' @ zipName taskID @ ''.zip''])"
proof -
  let ?urls = "lookupURLs (urlsByTask s) taskID"
  let ?x = "(repo s)\<lparr>Tasks := (Tasks (repo s))(taskID \<mapsto> task\<lparr>Status := st\<rparr>)\<rparr>"
  let ?s0 = "s\<lparr>repo := ?x\<rparr>"
  obtain s1 w1 files where d: "downloadAll e s w ?urls taskID = ((s1, w1), files)"
    by (metis prod.exhaust)
  have d0: "downloadAll e ?s0 w ?urls taskID = ((s1\<lparr>repo := ?x\<rparr>, w1), files)"
    by (rule downloadAll_other_repo [OF d])
  have "s1 = s\<lparr>filesCounter := filesCounter s1\<rparr>"
    by (rule downloadAll_service [OF d])
  then have repo1: "repo s1 = repo s"
    by (metis TaskService.select_convs(1) TaskService.surjective TaskService.update_convs(5))
  have task0: "Tasks (repo ?s0) taskID = Some (task\<lparr>Status := st\<rparr>)"
    and urls0: "lookupURLs (urlsByTask ?s0) taskID = ?urls"
    by simp_all
  have zip0: "createZipArchive e (s1\<lparr>repo := ?x\<rparr>) w1 taskID files
      = createZipArchive e s1 w1 taskID files"
    by (rule createZipArchive_path_only) (simp add: repo1 assms(1))
  have same: "GetStatus e ?s0 w taskID = GetStatus e s w taskID"
  proof (cases "files = []")
    case True
    with GetStatus_all_failed [OF assms(1,3)] d
      GetStatus_all_failed [OF task0, of e w "s1\<lparr>repo := ?x\<rparr>" w1] d0 assms(2,3)
    show ?thesis
      by (simp add: repo1)
  next
    case False
    obtain w2 a where z: "createZipArchive e s1 w1 taskID files = (w2, a)"
      by (cases "createZipArchive e s1 w1 taskID files")
    show ?thesis
    proof (cases a)
      case (Inl err)
      with assms(1,2,3) d d0 False z zip0 show ?thesis
        by (simp add: GetStatus_def GetTask_def Let_def saveLogged_def SaveTask_def repo1)
    next
      case (Inr archivePath)
      obtain w3 derr where del: "deleteFiles e w2 files = (w3, derr)"
        by (cases "deleteFiles e w2 files")
      from z Inr have z': "createZipArchive e s1 w1 taskID files = (w2, Inr archivePath)"
        by simp
      with zip0 have z0: "createZipArchive e (s1\<lparr>repo := ?x\<rparr>) w1 taskID files
          = (w2, Inr archivePath)"
        by simp
      have d0': "downloadAll e ?s0 w (lookupURLs (urlsByTask ?s0) taskID) taskID
          = ((s1\<lparr>repo := ?x\<rparr>, w1), files)"
        using d0 by simp
      have n0: "3 \<le> length (lookupURLs (urlsByTask ?s0) taskID)"
        using assms(3) by simp
      from GetStatus_completed [OF assms(1,3) d False z' del]
        GetStatus_completed [OF task0 n0 d0' False z0 del] assms(2)
      show ?thesis
        by (simp add: repo1)
    qed
  qed
  from downloadAll_requests [OF d] obtain rs where "requests w1 = requests w @ rs
      \<and> (\<forall>u\<in>set ?urls. os_fail e (NewRequest u) = None \<longrightarrow>
            (HEAD, u) \<in> set rs \<or> (GET, u) \<in> set rs)"
    by (rule exE)
  moreover note GetStatus_requests [OF assms(1,3) d assms(4)]
  ultimately have sent: "\<exists>rs. requests w' = requests w @ rs
      \<and> (\<forall>u\<in>set ?urls. os_fail e (NewRequest u) = None \<longrightarrow>
            (HEAD, u) \<in> set rs \<or> (GET, u) \<in> set rs)"
    by (intro exI [of _ rs]) simp
  from same assms(4) sent GetStatus_requests [OF assms(1,3) d assms(4)] show ?thesis
    by simp
qed

lemma base_demo2:
  "Base ''../downloads/Task_01_4.jpg'' = ''Task_01_4.jpg''"
  "Base ''../downloads/Task_01_5.png'' = ''Task_01_5.png''"
  "Base ''../downloads/Task_01_6.jpg'' = ''Task_01_6.jpg''"
  by (simp_all add: Base_def)

lemma demo_done_simps:
  "Tasks (repo demo_done) 1
     = Some \<lparr>ID = 1, Status = status_completed, URLs = [], ArchivePath = ''archives/Task_01.zip''\<rparr>"
  "lookupURLs (urlsByTask demo_done) 1 = demo_urls"
  "cfg demo_done = demo_cfg" "filesCounter demo_done = 3" "activeTasksCounter demo_done = 0"
  by (simp_all add: demo_done_def lookupURLs_def)

lemma demo_poll1_eq:
  "demo_poll1
     = ((demo_done, demo_archived),
        Inr [''status'' \<mapsto> status_completed,
             ''archive_url'' \<mapsto> ''http://localhost:8080/archives/Task_01.zip''])"
proof -
  let ?t = "\<lparr>ID = 1, Status = status_in_progress, URLs = [], ArchivePath = ''../archives/Task_01''\<rparr>"
  let ?s1 = "demo_linked\<lparr>filesCounter := 3\<rparr>"
  let ?entries = "map (\<lambda>p. (Base p, Bytes ''abc'')) demo_files"
  let ?w2 = "write_file ''../archives/Task_01.zip'' (ZipFile ?entries) demo_downloaded"
  have n: "3 \<le> length (lookupURLs (urlsByTask demo_linked) 1)"
    by (simp add: demo_linked_simps demo_urls_def)
  have d: "downloadAll env_up demo_linked demo_world (lookupURLs (urlsByTask demo_linked) 1) 1
      = ((?s1, demo_downloaded), demo_files)"
    using demo_download_first [of env_up demo_linked demo_world]
    by (simp add: demo_linked_simps demo_downloaded_eq env_up_simps)
  have ne: "demo_files \<noteq> []"
    by (simp add: demo_files_def)
  have z: "createZipArchive env_up ?s1 demo_downloaded 1 demo_files = (?w2, Inr ''archives/Task_01.zip'')"
    using createZipArchive_built [of ?s1 1 ?t "''../archives/Task_01.zip''" demo_files
        demo_downloaded "\<lambda>p. Bytes ''abc''" env_up]
    by (simp add: demo_linked_simps demo_files_def demo_downloaded_def env_up_simps zipName_1)
  have del: "deleteFiles env_up ?w2 demo_files
      = (remove_file ''../downloads/Task_01_3.jpg'' (remove_file ''../downloads/Task_01_2.png''
           (remove_file ''../downloads/Task_01_1.jpg'' ?w2)), None)"
    by (simp add: demo_files_def demo_downloaded_def env_up_simps write_file_def remove_file_def)
  have s: "?s1\<lparr>activeTasksCounter := activeTasksCounter ?s1 - 1,
           repo := (repo ?s1)\<lparr>Tasks := (Tasks (repo ?s1))(ID ?t \<mapsto>
                      ?t\<lparr>Status := status_completed, ArchivePath := ''archives/Task_01.zip''\<rparr>)\<rparr>\<rparr>
      = demo_done"
    by (simp add: demo_linked_eq demo_done_def)
  have w: "remove_file ''../downloads/Task_01_3.jpg'' (remove_file ''../downloads/Task_01_2.png''
           (remove_file ''../downloads/Task_01_1.jpg'' ?w2)) = demo_archived"
    by (simp add: demo_files_def demo_downloaded_def demo_archived_def write_file_def
        remove_file_def base_demo fun_eq_iff)
  from GetStatus_completed [OF demo_linked_simps(1) n d ne z del] show ?thesis
    unfolding s by (simp add: demo_poll1_def w demo_linked_simps demo_cfg_def port_demo)
qed

lemma demo_poll2_eq:
  "demo_poll2
     = ((demo_done\<lparr>filesCounter := 6, activeTasksCounter := - 1\<rparr>,
         demo_archived\<lparr>disk := (disk demo_archived)(''archives/Task_01.zip.zip'' \<mapsto>
                ZipFile [(''Task_01_4.jpg'', Bytes ''abc''), (''Task_01_5.png'', Bytes ''abc''),
                         (''Task_01_6.jpg'', Bytes ''abc'')]),
            requests := requests demo_archived @
              [(GET, ''http://h/a.jpg''), (GET, ''http://h/b.png''), (GET, ''http://h/c.jpg'')]\<rparr>),
        Inr [''status'' \<mapsto> status_completed,
             ''archive_url'' \<mapsto> ''http://localhost:8080/archives/Task_01.zip''])"
proof -
  let ?t = "\<lparr>ID = 1, Status = status_completed, URLs = [], ArchivePath = ''archives/Task_01.zip''\<rparr>"
  let ?s1 = "demo_done\<lparr>filesCounter := 6\<rparr>"
  let ?files = "[''../downloads/Task_01_4.jpg'', ''../downloads/Task_01_5.png'',
        ''../downloads/Task_01_6.jpg'']"
  let ?w1 = "demo_archived\<lparr>disk := (disk demo_archived)(''../downloads/Task_01_4.jpg'' \<mapsto> Bytes ''abc'',
                             ''../downloads/Task_01_5.png'' \<mapsto> Bytes ''abc'',
                             ''../downloads/Task_01_6.jpg'' \<mapsto> Bytes ''abc''),
           requests := requests demo_archived @ [(GET, ''http://h/a.jpg''), (GET, ''http://h/b.png''),
                                      (GET, ''http://h/c.jpg'')]\<rparr>"
  let ?entries = "map (\<lambda>p. (Base p, Bytes ''abc'')) ?files"
  let ?w2 = "write_file ''archives/Task_01.zip.zip'' (ZipFile ?entries) ?w1"
  have n: "3 \<le> length (lookupURLs (urlsByTask demo_done) 1)"
    by (simp add: demo_done_simps demo_urls_def)
  have d: "downloadAll env_up demo_done demo_archived (lookupURLs (urlsByTask demo_done) 1) 1
      = ((?s1, ?w1), ?files)"
    using demo_download_second [of env_up demo_done demo_archived]
    by (simp add: demo_done_simps env_up_simps)
  have ne: "?files \<noteq> []"
    by simp
  have z: "createZipArchive env_up ?s1 ?w1 1 ?files = (?w2, Inr ''archives/Task_01.zip'')"
    using createZipArchive_built [of ?s1 1 ?t "''archives/Task_01.zip.zip''" ?files
        ?w1 "\<lambda>p. Bytes ''abc''" env_up]
    by (simp add: demo_done_simps env_up_simps zipName_1)
  have del: "deleteFiles env_up ?w2 ?files
      = (remove_file ''../downloads/Task_01_6.jpg'' (remove_file ''../downloads/Task_01_5.png''
           (remove_file ''../downloads/Task_01_4.jpg'' ?w2)), None)"
    by (simp add: env_up_simps write_file_def remove_file_def)
  have s: "?s1\<lparr>activeTasksCounter := activeTasksCounter ?s1 - 1,
           repo := (repo ?s1)\<lparr>Tasks := (Tasks (repo ?s1))(ID ?t \<mapsto>
                      ?t\<lparr>Status := status_completed, ArchivePath := ''archives/Task_01.zip''\<rparr>)\<rparr>\<rparr>
      = demo_done\<lparr>filesCounter := 6, activeTasksCounter := - 1\<rparr>"
    by (simp add: demo_done_def)
  have w: "remove_file ''../downloads/Task_01_6.jpg'' (remove_file ''../downloads/Task_01_5.png''
           (remove_file ''../downloads/Task_01_4.jpg'' ?w2))
      = demo_archived\<lparr>disk := (disk demo_archived)(''archives/Task_01.zip.zip'' \<mapsto>
                ZipFile [(''Task_01_4.jpg'', Bytes ''abc''), (''Task_01_5.png'', Bytes ''abc''),
                         (''Task_01_6.jpg'', Bytes ''abc'')]),
            requests := requests demo_archived @
              [(GET, ''http://h/a.jpg''), (GET, ''http://h/b.png''), (GET, ''http://h/c.jpg'')]\<rparr>"
    by (simp add: demo_archived_def write_file_def remove_file_def base_demo2 fun_eq_iff)
  from GetStatus_completed [OF demo_done_simps(1) n d ne z del] show ?thesis
    unfolding s w by (simp add: demo_poll2_def demo_poll1_eq demo_done_simps demo_cfg_def port_demo)
qed

lemma demo_poll2_down_eq:
  "demo_poll2_down
     = ((demo_done\<lparr>repo := \<lparr>Tasks = [1 \<mapsto> \<lparr>ID = 1, Status = status_failed, URLs = [],
                                              ArchivePath = ''archives/Task_01.zip''\<rparr>]\<rparr>\<rparr>,
         demo_archived\<lparr>requests := requests demo_archived @
              [(GET, ''http://h/a.jpg''), (GET, ''http://h/b.png''), (GET, ''http://h/c.jpg'')],
            logged := [(LevelWarn, DownloadFailed), (LevelWarn, DownloadFailed),
                       (LevelWarn, DownloadFailed)]\<rparr>),
        Inr [''status'' \<mapsto> ''failed''])"
proof -
  have n: "3 \<le> length (lookupURLs (urlsByTask demo_done) 1)"
    by (simp add: demo_done_simps demo_urls_def)
  have d: "downloadAll env_down demo_done demo_archived (lookupURLs (urlsByTask demo_done) 1) 1
      = ((demo_done, demo_archived\<lparr>requests := requests demo_archived @
              [(GET, ''http://h/a.jpg''), (GET, ''http://h/b.png''), (GET, ''http://h/c.jpg'')],
            logged := logged demo_archived @ [(LevelWarn, DownloadFailed), (LevelWarn, DownloadFailed),
                       (LevelWarn, DownloadFailed)]\<rparr>), [])"
    using demo_all_fail [of demo_done demo_archived 1] by (simp add: demo_done_simps)
  from GetStatus_all_failed [OF demo_done_simps(1) n d] show ?thesis
    by (simp add: demo_poll2_down_def demo_poll1_eq) (simp add: demo_done_def demo_archived_def)
qed

text \<open>
  C2, as stated, fails: the first poll of the example task completes it, and a second
  poll of the completed task downloads the three URLs again (three more requests, the
  file counter at 6), writes a second archive, now under \<open>archives/Task_01.zip.zip\<close>,
  and decrements the active-task counter a second time. When the hosts cannot be
  reached at the second poll, the completed task becomes a failed one and the answer
  is no longer the one of the first poll.
\<close>

theorem completed_task_polled_again_counterexample:
  "map_option Status (Tasks (repo (fst (fst demo_poll1))) 1) = Some status_completed
   \<and> snd demo_poll1 = Inr [''status'' \<mapsto> status_completed,
                            ''archive_url'' \<mapsto> ''http://localhost:8080/archives/Task_01.zip'']
   \<and> requests (snd (fst demo_poll1))
       = [(GET, ''http://h/a.jpg''), (GET, ''http://h/b.png''), (GET, ''http://h/c.jpg'')]
   \<and> requests (snd (fst demo_poll2))
       = [(GET, ''http://h/a.jpg''), (GET, ''http://h/b.png''), (GET, ''http://h/c.jpg''),
          (GET, ''http://h/a.jpg''), (GET, ''http://h/b.png''), (GET, ''http://h/c.jpg'')]
   \<and> filesCounter (fst (fst demo_poll1)) = 3
   \<and> filesCounter (fst (fst demo_poll2)) = 6
   \<and> disk (snd (fst demo_poll1)) ''archives/Task_01.zip.zip'' = None
   \<and> disk (snd (fst demo_poll2)) ''archives/Task_01.zip.zip''
       = Some (ZipFile [(''Task_01_4.jpg'', Bytes ''abc''), (''Task_01_5.png'', Bytes ''abc''),
                        (''Task_01_6.jpg'', Bytes ''abc'')])
   \<and> sint (activeTasksCounter (fst (fst demo_poll1))) = 0
   \<and> sint (activeTasksCounter (fst (fst demo_poll2))) = - 1
   \<and> map_option Status (Tasks (repo (fst (fst demo_poll2_down))) 1) = Some status_failed
   \<and> snd demo_poll2_down = Inr [''status'' \<mapsto> ''failed'']
   \<and> snd demo_poll2_down \<noteq> snd demo_poll1"
proof -
  have "[''status'' \<mapsto> ''failed''] ''status''
      \<noteq> [''status'' \<mapsto> status_completed,
          ''archive_url'' \<mapsto> ''http://localhost:8080/archives/Task_01.zip''] ''status''"
    by (simp add: completed_is_no_failure)
  then have differ: "[''status'' \<mapsto> ''failed'']
      \<noteq> [''status'' \<mapsto> status_completed,
          ''archive_url'' \<mapsto> ''http://localhost:8080/archives/Task_01.zip'']"
    by metis
  show ?thesis
    using differ
    by (simp add: demo_poll1_eq demo_poll2_eq demo_poll2_down_eq)
      (simp add: demo_done_def demo_archived_def)
qed

theorem GetStatus_ignores_stored_status_witness:
  "Tasks (repo demo_done) 1
     = Some \<lparr>ID = 1, Status = status_completed, URLs = [], ArchivePath = ''archives/Task_01.zip''\<rparr>
   \<and> length (lookupURLs (urlsByTask demo_done) 1) = 3
   \<and> os_fail env_up (NewRequest ''http://h/a.jpg'') = None
   \<and> GetStatus env_up demo_done demo_archived 1 = demo_poll2
   \<and> GetStatus env_up
        (demo_done\<lparr>repo := (repo demo_done)\<lparr>Tasks := (Tasks (repo demo_done))(1 \<mapsto>
           \<lparr>ID = 1, Status = status_in_progress, URLs = [],
            ArchivePath = ''archives/Task_01.zip''\<rparr>)\<rparr>\<rparr>) demo_archived 1 = demo_poll2
   \<and> (\<exists>rs. requests (snd (fst demo_poll2)) = requests demo_archived @ rs
          \<and> ((HEAD, ''http://h/a.jpg'') \<in> set rs \<or> (GET, ''http://h/a.jpg'') \<in> set rs)
          \<and> ((HEAD, ''http://h/b.png'') \<in> set rs \<or> (GET, ''http://h/b.png'') \<in> set rs)
          \<and> ((HEAD, ''http://h/c.jpg'') \<in> set rs \<or> (GET, ''http://h/c.jpg'') \<in> set rs))
   \<and> snd demo_poll2
       = Inr [''status'' \<mapsto> status_completed,
              ''archive_url'' \<mapsto> ''http://localhost:8080/archives/Task_01.zip'']"
proof -
  let ?t = "\<lparr>ID = 1, Status = status_completed, URLs = [], ArchivePath = ''archives/Task_01.zip''\<rparr>"
  have i: "ID ?t = 1"
    by simp
  have n: "3 \<le> length (lookupURLs (urlsByTask demo_done) 1)"
    by (simp add: demo_done_simps demo_urls_def)
  have p: "GetStatus env_up demo_done demo_archived 1 = demo_poll2"
    by (simp add: demo_poll2_def demo_poll1_eq)
  then have split: "GetStatus env_up demo_done demo_archived 1
      = ((fst (fst demo_poll2), snd (fst demo_poll2)), snd demo_poll2)"
    by simp
  note inst = GetStatus_ignores_stored_status [OF demo_done_simps(1) i n split,
      of status_in_progress]
  from inst have same: "GetStatus env_up
        (demo_done\<lparr>repo := (repo demo_done)\<lparr>Tasks := (Tasks (repo demo_done))(1 \<mapsto>
           \<lparr>ID = 1, Status = status_in_progress, URLs = [],
            ArchivePath = ''archives/Task_01.zip''\<rparr>)\<rparr>\<rparr>) demo_archived 1 = demo_poll2"
    by simp
  from inst have sent: "\<exists>rs. requests (snd (fst demo_poll2)) = requests demo_archived @ rs
          \<and> ((HEAD, ''http://h/a.jpg'') \<in> set rs \<or> (GET, ''http://h/a.jpg'') \<in> set rs)
          \<and> ((HEAD, ''http://h/b.png'') \<in> set rs \<or> (GET, ''http://h/b.png'') \<in> set rs)
          \<and> ((HEAD, ''http://h/c.jpg'') \<in> set rs \<or> (GET, ''http://h/c.jpg'') \<in> set rs)"
    by (simp add: demo_done_simps demo_urls_def env_up_simps)
  have r: "snd demo_poll2
       = Inr [''status'' \<mapsto> status_completed,
              ''archive_url'' \<mapsto> ''http://localhost:8080/archives/Task_01.zip'']"
    by (simp add: demo_poll2_eq)
  show ?thesis
    using p same sent r
    by (simp add: demo_done_simps demo_urls_def env_up_simps)
qed

subsection \<open>The repository of a reachable state\<close>

lemma GetStatus_repo:
  assumes "GetStatus e s w taskID = ((s', w'), r)"
  shows "Tasks (repo s') = Tasks (repo s)
    \<or> (\<exists>task task'. Tasks (repo s) taskID = Some task \<and> ID task' = ID task
          \<and> Tasks (repo s') = (Tasks (repo s))(ID task \<mapsto> task'))"
proof (cases "Tasks (repo s) taskID")
  case None
  with assms show ?thesis
    by (simp add: GetStatus_def GetTask_def)
next
  case (Some task)
  let ?urls = "lookupURLs (urlsByTask s) taskID"
  show ?thesis
  proof (cases "3 \<le> length ?urls")
    case False
    with Some assms show ?thesis
      by (simp add: GetStatus_def GetTask_def Let_def)
  next
    case True
    obtain s1 w1 files where d: "downloadAll e s w ?urls taskID = ((s1, w1), files)"
      by (metis prod.exhaust)
    have "s1 = s\<lparr>filesCounter := filesCounter s1\<rparr>"
      by (rule downloadAll_service [OF d])
    then have repo1: "repo s1 = repo s"
      by (metis TaskService.select_convs(1) TaskService.surjective TaskService.update_convs(5))
    have "\<exists>task'. ID task' = ID task \<and> Tasks (repo s') = (Tasks (repo s))(ID task \<mapsto> task')"
    proof (cases "files = []")
      case True
      with GetStatus_all_failed [OF Some \<open>3 \<le> length ?urls\<close>] d assms
      have "Tasks (repo s') = (Tasks (repo s))(ID task \<mapsto> task\<lparr>Status := status_failed\<rparr>)"
        by (auto simp add: repo1)
      then show ?thesis
        by (intro exI [of _ "task\<lparr>Status := status_failed\<rparr>"]) simp
    next
      case False
      obtain w2 a where z: "createZipArchive e s1 w1 taskID files = (w2, a)"
        by (cases "createZipArchive e s1 w1 taskID files")
      show ?thesis
      proof (cases a)
        case (Inl err)
        with Some True d False z assms
        have "Tasks (repo s') = (Tasks (repo s))(ID task \<mapsto> task\<lparr>Status := status_failed\<rparr>)"
          by (auto simp add: GetStatus_def GetTask_def Let_def saveLogged_def SaveTask_def repo1)
        then show ?thesis
          by (intro exI [of _ "task\<lparr>Status := status_failed\<rparr>"]) simp
      next
        case (Inr archivePath)
        obtain w3 derr where del: "deleteFiles e w2 files = (w3, derr)"
          by (cases "deleteFiles e w2 files")
        from z Inr have z': "createZipArchive e s1 w1 taskID files = (w2, Inr archivePath)"
          by simp
        from GetStatus_completed [OF Some True d False z' del] assms
        have "Tasks (repo s') = (Tasks (repo s))(ID task \<mapsto>
            task\<lparr>Status := status_completed, ArchivePath := archivePath\<rparr>)"
          by (auto simp add: repo1)
        then show ?thesis
          by (intro exI [of _ "task\<lparr>Status := status_completed, ArchivePath := archivePath\<rparr>"])
            simp
      qed
    qed
    with Some show ?thesis by simp
  qed
qed

lemma keyed_by_ID_CreateTask: "keyed_by_ID s \<Longrightarrow> keyed_by_ID (fst (CreateTask s))"
  by (simp add: keyed_by_ID_def CreateTask_def SaveTask_def Let_def)

lemma keyed_by_ID_AddLinks: "keyed_by_ID s \<Longrightarrow> keyed_by_ID (fst (AddLinks s taskID urls))"
  by (auto simp add: keyed_by_ID_def AddLinks_def SaveTask_def GetTask_def Let_def
      split: option.splits)

lemma keyed_by_ID_GetStatus:
  assumes "keyed_by_ID s"
  shows "keyed_by_ID (fst (fst (GetStatus e s w taskID)))"
proof -
  obtain s' w' r where g: "GetStatus e s w taskID = ((s', w'), r)"
    by (metis prod.exhaust)
  from GetStatus_repo [OF g] assms have "keyed_by_ID s'"
    by (auto simp add: keyed_by_ID_def split: if_splits)
  with g show ?thesis by simp
qed

text \<open>
  In every reachable state each task is stored under its own ID: a task found under
  \<open>taskID\<close> has \<open>ID task = taskID\<close>.
\<close>

lemma reachable_keyed_by_ID: "reachable c st \<Longrightarrow> keyed_by_ID (fst st)"
proof (induction rule: reachable.induct)
  case (started w)
  show ?case
    by (simp add: keyed_by_ID_def NewTaskService_def NewInMemoryRepository_def)
next
  case (created s w)
  then show ?case by (simp add: keyed_by_ID_CreateTask)
next
  case (linked s w taskID urls)
  then show ?case by (simp add: keyed_by_ID_AddLinks)
next
  case (polled s w e taskID)
  then show ?case by (simp add: keyed_by_ID_GetStatus)
qed

subsection \<open>The active-task counter, step by step\<close>

text \<open>
  \<open>CreateTask\<close> keeps the counter at 3 or below, \<open>AddLinks\<close> leaves it alone, and
  \<open>GetStatus\<close> leaves it alone or, only when it answers with the completed status,
  takes one off.
\<close>

lemma CreateTask_keeps_cap:
  assumes "sint (activeTasksCounter s) \<le> 3"
  shows "sint (activeTasksCounter (fst (CreateTask s))) \<le> 3"
proof (cases "3 \<le>s activeTasksCounter s")
  case True
  with assms show ?thesis
    by (simp add: CreateTask_def)
next
  case False
  then have "sint (activeTasksCounter s) < 3"
    by (simp add: word_sle_eq)
  moreover from this have "sint (activeTasksCounter s + 1) = sint (activeTasksCounter s) + 1"
    by (intro sint_succ64) simp
  ultimately show ?thesis
    using False by (simp add: CreateTask_def SaveTask_def Let_def)
qed

lemma AddLinks_counter: "activeTasksCounter (fst (AddLinks s taskID urls)) = activeTasksCounter s"
  by (simp add: AddLinks_def SaveTask_def GetTask_def Let_def split: sum.splits)

lemma GetStatus_counter:
  assumes "GetStatus e s w taskID = ((s', w'), r)"
  shows "activeTasksCounter s' = activeTasksCounter s
    \<or> (activeTasksCounter s' = activeTasksCounter s - 1
        \<and> (\<exists>m. r = Inr m \<and> m ''status'' = Some status_completed))"
proof (cases "Tasks (repo s) taskID")
  case None
  with assms show ?thesis
    by (simp add: GetStatus_def GetTask_def)
next
  case (Some task)
  let ?urls = "lookupURLs (urlsByTask s) taskID"
  show ?thesis
  proof (cases "3 \<le> length ?urls")
    case False
    with Some assms show ?thesis
      by (simp add: GetStatus_def GetTask_def Let_def)
  next
    case True
    obtain s1 w1 files where d: "downloadAll e s w ?urls taskID = ((s1, w1), files)"
      by (metis prod.exhaust)
    have "s1 = s\<lparr>filesCounter := filesCounter s1\<rparr>"
      by (rule downloadAll_service [OF d])
    then have active1: "activeTasksCounter s1 = activeTasksCounter s"
      by (metis TaskService.select_convs(4) TaskService.surjective TaskService.update_convs(5))
    show ?thesis
    proof (cases "files = []")
      case True
      with GetStatus_all_failed [OF Some \<open>3 \<le> length ?urls\<close>] d assms show ?thesis
        by (auto simp add: active1)
    next
      case False
      obtain w2 a where z: "createZipArchive e s1 w1 taskID files = (w2, a)"
        by (cases "createZipArchive e s1 w1 taskID files")
      show ?thesis
      proof (cases a)
        case (Inl err)
        with Some True d False z assms show ?thesis
          by (auto simp add: GetStatus_def GetTask_def Let_def saveLogged_def SaveTask_def active1)
      next
        case (Inr archivePath)
        obtain w3 derr where del: "deleteFiles e w2 files = (w3, derr)"
          by (cases "deleteFiles e w2 files")
        from z Inr have z': "createZipArchive e s1 w1 taskID files = (w2, Inr archivePath)"
          by simp
        from GetStatus_completed [OF Some True d False z' del] assms show ?thesis
          by (auto simp add: active1)
      qed
    qed
  qed
qed

subsection \<open>The IDs handed out\<close>

lemma AddLinks_taskCounter: "taskCounter (fst (AddLinks s taskID urls)) = taskCounter s"
  by (simp add: AddLinks_def SaveTask_def GetTask_def Let_def split: sum.splits)

lemma GetStatus_taskCounter:
  assumes "GetStatus e s w taskID = ((s', w'), r)"
  shows "taskCounter s' = taskCounter s"
proof (cases "Tasks (repo s) taskID")
  case None
  with assms show ?thesis
    by (simp add: GetStatus_def GetTask_def)
next
  case (Some task)
  let ?urls = "lookupURLs (urlsByTask s) taskID"
  show ?thesis
  proof (cases "3 \<le> length ?urls")
    case False
    with Some assms show ?thesis
      by (simp add: GetStatus_def GetTask_def Let_def)
  next
    case True
    obtain s1 w1 files where d: "downloadAll e s w ?urls taskID = ((s1, w1), files)"
      by (metis prod.exhaust)
    have "s1 = s\<lparr>filesCounter := filesCounter s1\<rparr>"
      by (rule downloadAll_service [OF d])
    then have same: "taskCounter s1 = taskCounter s"
      by (metis TaskService.select_convs(3) TaskService.surjective TaskService.update_convs(5))
    show ?thesis
    proof (cases "files = []")
      case True
      with GetStatus_all_failed [OF Some \<open>3 \<le> length ?urls\<close>] d assms show ?thesis
        by (auto simp add: same)
    next
      case False
      obtain w2 a where z: "createZipArchive e s1 w1 taskID files = (w2, a)"
        by (cases "createZipArchive e s1 w1 taskID files")
      show ?thesis
      proof (cases a)
        case (Inl err)
        with Some True d False z assms show ?thesis
          by (auto simp add: GetStatus_def GetTask_def Let_def saveLogged_def SaveTask_def same)
      next
        case (Inr archivePath)
        obtain w3 derr where del: "deleteFiles e w2 files = (w3, derr)"
          by (cases "deleteFiles e w2 files")
        from z Inr have z': "createZipArchive e s1 w1 taskID files = (w2, Inr archivePath)"
          by simp
        from GetStatus_completed [OF Some True d False z' del] assms show ?thesis
          by (auto simp add: same)
      qed
    qed
  qed
qed

text \<open>
  In a run whose ID counter has not wrapped, every ID handed out so far is positive
  and at most the ID counter.
\<close>

lemma allocated_up_to_counter:
  "allocated c ids st \<Longrightarrow>
   0 \<le> sint (taskCounter (fst st)) \<and> (\<forall>k\<in>set ids. 0 < sint k \<and> sint k \<le> sint (taskCounter (fst st)))"
proof (induction rule: allocated.induct)
  case (fresh w)
  show ?case by (simp add: NewTaskService_def)
next
  case (handed_out ids s w s' i)
  from handed_out.hyps(3) have new: "i = taskCounter s + 1" "taskCounter s' = taskCounter s + 1"
    by (auto simp add: CreateTask_def SaveTask_def Let_def split: if_splits)
  have "sint (taskCounter s + 1) = sint (taskCounter s) + 1"
    using handed_out.hyps(2) by (rule sint_succ64)
  with handed_out.IH new show ?case by auto
next
  case (refused ids s w s' err)
  from refused.hyps(2) have "s' = s"
    by (auto simp add: CreateTask_def SaveTask_def Let_def split: if_splits)
  with refused.IH show ?case by simp
next
  case (links_added ids s w taskID urls)
  then show ?case by (simp add: AddLinks_taskCounter)
next
  case (status_polled ids s w e taskID)
  obtain s' w' r where g: "GetStatus e s w taskID = ((s', w'), r)"
    by (metis prod.exhaust)
  from GetStatus_taskCounter [OF g] status_polled.IH g show ?case by simp
qed

text \<open>A run with the IDs it handed out is a run.\<close>

lemma allocated_reachable: "allocated c ids st \<Longrightarrow> reachable c st"
proof (induction rule: allocated.induct)
  case (fresh w)
  show ?case by (rule reachable.started)
next
  case (handed_out ids s w s' i)
  from reachable.created [OF handed_out.IH] handed_out.hyps(3) show ?case by simp
next
  case (refused ids s w s' err)
  from reachable.created [OF refused.IH] refused.hyps(2) show ?case by simp
next
  case (links_added ids s w taskID urls)
  then show ?case by (simp add: reachable.linked)
next
  case (status_polled ids s w e taskID)
  then show ?case by (simp add: reachable.polled)
qed

subsection \<open>CreateTask\<close>

text \<open>
  C3, as stated, fails: the task that \<open>CreateTask\<close> persists does not have an empty
  \<open>ArchivePath\<close>. The first task of a fresh service is stored with the path
  \<open>../archives/Task_01\<close>.
\<close>

theorem CreateTask_ArchivePath_counterexample:
  "snd (CreateTask demo_new) = Inr 1
   \<and> map_option ArchivePath (Tasks (repo (fst (CreateTask demo_new))) 1)
       = Some ''../archives/Task_01''
   \<and> map_option ArchivePath (Tasks (repo (fst (CreateTask demo_new))) 1) \<noteq> Some []"
  by (simp add: demo_new_def NewTaskService_def NewInMemoryRepository_def
      CreateTask_def SaveTask_def Let_def word_cmp zipName_1 zipPath_def)

text \<open>
  C3, amended. \<open>CreateTask\<close> fails with \<open>ErrServerBusy\<close>, changing nothing, exactly when
  the active-task counter is 3 or more. Otherwise it returns the ID counter plus one;
  in a run of the service whose ID counter has not wrapped around, that ID is strictly
  greater than every ID handed out before. It stores under that ID a task with the
  status "created" and the archive path \<open>../archives/\<close> followed by the base name (not
  the empty path); the base name is \<open>Task_\<close> and the ID in decimal, with a \<open>0\<close> before
  a single digit; the ledger entry of the ID is empty; the active-task counter is one
  more; nothing else changes.
\<close>

theorem CreateTask_spec:
  "(3 \<le>s activeTasksCounter s \<longrightarrow> CreateTask s = (s, Inl ErrServerBusy))
   \<and> (\<not> 3 \<le>s activeTasksCounter s \<longrightarrow>
        (\<exists>s'. CreateTask s = (s', Inr (taskCounter s + 1))
           \<and> taskCounter s' = taskCounter s + 1
           \<and> (allocated c ids (s, w) \<and> sint (taskCounter s) < 2 ^ 63 - 1 \<longrightarrow>
                (\<forall>k\<in>set ids. k <s taskCounter s + 1))
           \<and> Tasks (repo s') =
                (Tasks (repo s))(taskCounter s + 1 \<mapsto>
                   \<lparr>ID = taskCounter s + 1, Status = status_created, URLs = [],
                    ArchivePath = ''../archives/'' @ zipName (taskCounter s + 1)\<rparr>)
           \<and> urlsByTask s' = (urlsByTask s)(taskCounter s + 1 \<mapsto> [])
           \<and> activeTasksCounter s' = activeTasksCounter s + 1
           \<and> sint (activeTasksCounter s') = sint (activeTasksCounter s) + 1
           \<and> filesCounter s' = filesCounter s \<and> cfg s' = cfg s))
   \<and> (0 \<le> sint i \<and> sint i < 10 \<longrightarrow> zipName i = ''Task_0'' @ [digit (nat (sint i))])
   \<and> (10 \<le> sint i \<longrightarrow> zipName i = ''Task_'' @ digits10 (nat (sint i)))"
proof -
  have busy: "3 \<le>s activeTasksCounter s \<longrightarrow> CreateTask s = (s, Inl ErrServerBusy)"
    by (simp add: CreateTask_def)
  have inc: "\<not> 3 \<le>s activeTasksCounter s \<Longrightarrow>
      sint (activeTasksCounter s + 1) = sint (activeTasksCounter s) + 1"
    by (rule sint_succ64) (simp add: word_sle_eq)
  have above: "k <s taskCounter s + 1"
    if "allocated c ids (s, w)" and "sint (taskCounter s) < 2 ^ 63 - 1" and "k \<in> set ids" for k
  proof -
    from allocated_up_to_counter [OF that(1)] that(3)
    have "sint k \<le> sint (taskCounter s)"
      by simp
    moreover have "sint (taskCounter s + 1) = sint (taskCounter s) + 1"
      using that(2) by (rule sint_succ64)
    ultimately show ?thesis
      by (simp add: word_sless_alt)
  qed
  have ok: "\<not> 3 \<le>s activeTasksCounter s \<longrightarrow>
        (\<exists>s'. CreateTask s = (s', Inr (taskCounter s + 1))
           \<and> taskCounter s' = taskCounter s + 1
           \<and> (allocated c ids (s, w) \<and> sint (taskCounter s) < 2 ^ 63 - 1 \<longrightarrow>
                (\<forall>k\<in>set ids. k <s taskCounter s + 1))
           \<and> Tasks (repo s') =
                (Tasks (repo s))(taskCounter s + 1 \<mapsto>
                   \<lparr>ID = taskCounter s + 1, Status = status_created, URLs = [],
                    ArchivePath = ''../archives/'' @ zipName (taskCounter s + 1)\<rparr>)
           \<and> urlsByTask s' = (urlsByTask s)(taskCounter s + 1 \<mapsto> [])
           \<and> activeTasksCounter s' = activeTasksCounter s + 1
           \<and> sint (activeTasksCounter s') = sint (activeTasksCounter s) + 1
           \<and> filesCounter s' = filesCounter s \<and> cfg s' = cfg s)"
    using inc above by (simp add: CreateTask_def SaveTask_def Let_def zipPath_def)
  show ?thesis
    using busy ok zipName_small [of i] zipName_large [of i] by blast
qed

theorem CreateTask_spec_witness:
  "3 \<le>s activeTasksCounter demo_full
   \<and> CreateTask demo_full = (demo_full, Inl ErrServerBusy)
   \<and> \<not> 3 \<le>s activeTasksCounter demo_created
   \<and> allocated demo_cfg [1] (demo_created, demo_world)
   \<and> sint (taskCounter demo_created) < 2 ^ 63 - 1
   \<and> snd (CreateTask demo_created) = Inr 2
   \<and> (1::int64) <s 2
   \<and> Tasks (repo (fst (CreateTask demo_created))) 2
       = Some \<lparr>ID = 2, Status = status_created, URLs = [], ArchivePath = ''../archives/Task_02''\<rparr>
   \<and> urlsByTask (fst (CreateTask demo_created)) 2 = Some []
   \<and> sint (activeTasksCounter (fst (CreateTask demo_created))) = 2
   \<and> 0 \<le> sint (2::int64) \<and> sint (2::int64) < 10 \<and> zipName 2 = ''Task_02''
   \<and> 10 \<le> sint (12::int64) \<and> zipName 12 = ''Task_12''"
proof -
  have full: "3 \<le>s activeTasksCounter demo_full"
    by (simp add: demo_full_eq)
  have first: "CreateTask demo_new = (demo_created, Inr 1)"
    by (simp add: demo_created_eq)
      (simp add: demo_new_def NewTaskService_def NewInMemoryRepository_def
        CreateTask_def SaveTask_def Let_def word_cmp zipName_1 zipPath_def)
  have fresh: "allocated demo_cfg [] (demo_new, demo_world)"
    unfolding demo_new_def by (rule allocated.fresh)
  have run: "allocated demo_cfg [1] (demo_created, demo_world)"
    by (rule allocated.handed_out [OF fresh _ first])
      (simp add: demo_new_def NewTaskService_def)
  have one: "\<not> 3 \<le>s activeTasksCounter demo_created" "taskCounter demo_created = 1"
    "activeTasksCounter demo_created = 1"
    by (simp_all add: demo_created_eq word_cmp)
  have d12: "digits10 12 = ''12''"
    by (simp add: digits10.simps [of 12] digits10_small digit_def)
  show ?thesis
    using CreateTask_spec [of demo_full demo_cfg "[]" demo_world 2] full
      CreateTask_spec [of demo_created demo_cfg "[1]" demo_world 12] one run
    by (auto simp add: zipName_2 digit_def d12 word_sle_eq word_sless_alt)
qed

subsection \<open>Cleaning up after the archive\<close>

text \<open>
  As long as no \<open>Stat\<close> and no \<open>Remove\<close> fails, \<open>deleteFiles\<close> removes file after file;
  at the first file that is there and cannot be removed it returns the error, and the
  files after it are not looked at.
\<close>

lemma deleteFiles_prefix:
  "\<forall>p\<in>set removed. os_fail e (Stat p) = None \<and> os_fail e (Remove p) = None \<Longrightarrow>
   deleteFiles e w (removed @ rest)
     = deleteFiles e (w\<lparr>disk := (\<lambda>p. if p \<in> set removed then None else disk w p)\<rparr>) rest"
proof (induction removed arbitrary: w)
  case Nil
  then show ?case by simp
next
  case (Cons f fs)
  then have ok: "os_fail e (Stat f) = None" "os_fail e (Remove f) = None"
    and others: "\<forall>p\<in>set fs. os_fail e (Stat p) = None \<and> os_fail e (Remove p) = None"
    by simp_all
  show ?case
  proof (cases "disk w f")
    case None
    have "(\<lambda>p. if p \<in> set (f # fs) then None else disk w p)
        = (\<lambda>p. if p \<in> set fs then None else disk w p)"
      using None by (auto simp add: fun_eq_iff)
    with Cons.IH [OF others, of w] ok None show ?thesis
      by simp
  next
    case (Some content)
    have "(\<lambda>p. if p \<in> set (f # fs) then None else disk w p)
        = (\<lambda>p. if p \<in> set fs then None else disk (remove_file f w) p)"
      by (auto simp add: fun_eq_iff remove_file_def)
    with Cons.IH [OF others, of "remove_file f w"] ok Some show ?thesis
      by (simp add: remove_file_def)
  qed
qed

lemma deleteFiles_when_nothing_fails:
  "\<forall>p\<in>set files. os_fail e (Stat p) = None \<and> os_fail e (Remove p) = None \<Longrightarrow>
   deleteFiles e w files
     = (w\<lparr>disk := (\<lambda>p. if p \<in> set files then None else disk w p)\<rparr>, None)"
  using deleteFiles_prefix [of files e w "[]"] by simp

lemma deleteFiles_stops:
  assumes "\<forall>p\<in>set removed. os_fail e (Stat p) = None \<and> os_fail e (Remove p) = None"
    and "f \<notin> set removed" and "disk w f = Some content"
    and "os_fail e (Stat f) = None" and "os_fail e (Remove f) = Some msg"
  shows "deleteFiles e w (removed @ f # rest)
    = (w\<lparr>disk := (\<lambda>p. if p \<in> set removed then None else disk w p)\<rparr>, Some (ErrExt msg))"
  using assms by (simp add: deleteFiles_prefix)

text \<open>
  C9 does not hold of the code: after the archive is built, not every input file is
  deleted when a deletion fails. \<open>deleteFiles\<close> returns at the first file \<open>f\<close> that it
  cannot remove, so every file listed after \<open>f\<close> stays on disk as it was, also when it
  could be removed. \<open>GetStatus\<close> logs the error and still answers with the completed
  status and the archive URL.
\<close>

theorem cleanup_stops_at_first_error:
  assumes "Tasks (repo s) taskID = Some task"
    and "3 \<le> length (lookupURLs (urlsByTask s) taskID)"
    and "downloadAll e s w (lookupURLs (urlsByTask s) taskID) taskID = ((s1, w1), files)"
    and "createZipArchive e s1 w1 taskID files = (w2, Inr archivePath)"
    and "files = removed @ f # rest"
    and "\<forall>p\<in>set removed. os_fail e (Stat p) = None \<and> os_fail e (Remove p) = None"
    and "f \<notin> set removed" and "disk w2 f = Some content"
    and "os_fail e (Stat f) = None" and "os_fail e (Remove f) = Some msg"
    and "GetStatus e s w taskID = ((s', w'), r)"
  shows "(\<forall>p\<in>set removed. disk w' p = None)
    \<and> (\<forall>p. p \<notin> set removed \<longrightarrow> disk w' p = disk w2 p)
    \<and> logged w' = logged w2 @ [(LevelError, DeleteFailed)]
    \<and> r = Inr [''status'' \<mapsto> status_completed,
               ''archive_url'' \<mapsto> ''http://localhost:'' @ FormatInt (sint (ServerPort (cfg s)))
                                     @ ''/'' @ archivePath]
    \<and> map_option Status (Tasks (repo s') (ID task)) = Some status_completed"
proof -
  let ?w3 = "w2\<lparr>disk := (\<lambda>p. if p \<in> set removed then None else disk w2 p)\<rparr>"
  have del: "deleteFiles e w2 files = (?w3, Some (ErrExt msg))"
    unfolding assms(5) by (rule deleteFiles_stops [OF assms(6,7,8,9,10)])
  have ne: "files \<noteq> []"
    using assms(5) by simp
  note run = GetStatus_completed [OF assms(1,2,3) ne assms(4) del]
  from run assms(11) have w': "w' = log_line LevelError DeleteFailed ?w3"
    and r: "r = Inr [''status'' \<mapsto> status_completed,
               ''archive_url'' \<mapsto> ''http://localhost:'' @ FormatInt (sint (ServerPort (cfg s)))
                                     @ ''/'' @ archivePath]"
    by simp_all
  from run assms(11)
  have st: "map_option Status (Tasks (repo s') (ID task)) = Some status_completed"
    by auto
  from w' have "(\<forall>p\<in>set removed. disk w' p = None)
    \<and> (\<forall>p. p \<notin> set removed \<longrightarrow> disk w' p = disk w2 p)
    \<and> logged w' = logged w2 @ [(LevelError, DeleteFailed)]"
    by (simp add: log_line_def)
  with r st show ?thesis by simp
qed

theorem cleanup_stops_at_first_error_witness:
  "downloadAll env_locked demo_linked demo_world (lookupURLs (urlsByTask demo_linked) 1) 1
     = ((demo_linked\<lparr>filesCounter := 3\<rparr>, demo_downloaded), demo_files)
   \<and> demo_files = [] @ ''../downloads/Task_01_1.jpg''
        # [''../downloads/Task_01_2.png'', ''../downloads/Task_01_3.jpg'']
   \<and> snd (createZipArchive env_locked (demo_linked\<lparr>filesCounter := 3\<rparr>) demo_downloaded 1
             demo_files) = Inr ''archives/Task_01.zip''
   \<and> os_fail env_locked (Stat ''../downloads/Task_01_1.jpg'') = None
   \<and> os_fail env_locked (Remove ''../downloads/Task_01_1.jpg'') = Some ''permission denied''
   \<and> os_fail env_locked (Stat ''../downloads/Task_01_2.png'') = None
   \<and> os_fail env_locked (Remove ''../downloads/Task_01_2.png'') = None
   \<and> os_fail env_locked (Stat ''../downloads/Task_01_3.jpg'') = None
   \<and> os_fail env_locked (Remove ''../downloads/Task_01_3.jpg'') = None
   \<and> map (disk (snd (fst (GetStatus env_locked demo_linked demo_world 1)))) demo_files
       = [Some (Bytes ''abc''), Some (Bytes ''abc''), Some (Bytes ''abc'')]
   \<and> disk (snd (fst (GetStatus env_locked demo_linked demo_world 1))) ''../archives/Task_01.zip''
       = Some (ZipFile [(''Task_01_1.jpg'', Bytes ''abc''), (''Task_01_2.png'', Bytes ''abc''),
                        (''Task_01_3.jpg'', Bytes ''abc'')])
   \<and> logged (snd (fst (GetStatus env_locked demo_linked demo_world 1))) = [(LevelError, DeleteFailed)]
   \<and> snd (GetStatus env_locked demo_linked demo_world 1)
       = Inr [''status'' \<mapsto> status_completed,
              ''archive_url'' \<mapsto> ''http://localhost:8080/archives/Task_01.zip'']"
proof -
  let ?t = "\<lparr>ID = 1, Status = status_in_progress, URLs = [], ArchivePath = ''../archives/Task_01''\<rparr>"
  let ?s1 = "demo_linked\<lparr>filesCounter := 3\<rparr>"
  let ?entries = "map (\<lambda>p. (Base p, Bytes ''abc'')) demo_files"
  let ?w2 = "write_file ''../archives/Task_01.zip'' (ZipFile ?entries) demo_downloaded"
  let ?f = "''../downloads/Task_01_1.jpg''"
  let ?rest = "[''../downloads/Task_01_2.png'', ''../downloads/Task_01_3.jpg'']"
  have n: "3 \<le> length (lookupURLs (urlsByTask demo_linked) 1)"
    by (simp add: demo_linked_simps demo_urls_def)
  have d: "downloadAll env_locked demo_linked demo_world (lookupURLs (urlsByTask demo_linked) 1) 1
      = ((?s1, demo_downloaded), demo_files)"
    using demo_download_first [of env_locked demo_linked demo_world]
    by (simp add: demo_linked_simps demo_downloaded_eq env_locked_simps)
  have z: "createZipArchive env_locked ?s1 demo_downloaded 1 demo_files
      = (?w2, Inr ''archives/Task_01.zip'')"
    using createZipArchive_built [of ?s1 1 ?t "''../archives/Task_01.zip''" demo_files
        demo_downloaded "\<lambda>p. Bytes ''abc''" env_locked]
    by (simp add: demo_linked_simps demo_files_def demo_downloaded_def env_locked_simps zipName_1)
  have files: "demo_files = [] @ ?f # ?rest"
    by (simp add: demo_files_def)
  have none: "\<forall>p\<in>set []. os_fail env_locked (Stat p) = None \<and> os_fail env_locked (Remove p) = None"
    and notin: "?f \<notin> set []"
    by simp_all
  have there: "disk ?w2 ?f = Some (Bytes ''abc'')"
    by (simp add: write_file_def demo_downloaded_def)
  have stat: "os_fail env_locked (Stat p) = None" for p
    by (simp add: env_locked_simps)
  have locked: "os_fail env_locked (Remove ?f) = Some ''permission denied''"
    by (simp add: env_locked_simps)
  have free: "os_fail env_locked (Remove ''../downloads/Task_01_2.png'') = None"
    "os_fail env_locked (Remove ''../downloads/Task_01_3.jpg'') = None"
    by (simp_all add: env_locked_def)
  have split: "GetStatus env_locked demo_linked demo_world 1
      = ((fst (fst (GetStatus env_locked demo_linked demo_world 1)),
          snd (fst (GetStatus env_locked demo_linked demo_world 1))),
         snd (GetStatus env_locked demo_linked demo_world 1))"
    by simp
  note inst = cleanup_stops_at_first_error [OF demo_linked_simps(1) n d z files none notin there
      stat locked split]
  from inst have kept:
    "map (disk (snd (fst (GetStatus env_locked demo_linked demo_world 1)))) demo_files
       = [Some (Bytes ''abc''), Some (Bytes ''abc''), Some (Bytes ''abc'')]
     \<and> disk (snd (fst (GetStatus env_locked demo_linked demo_world 1))) ''../archives/Task_01.zip''
       = Some (ZipFile [(''Task_01_1.jpg'', Bytes ''abc''), (''Task_01_2.png'', Bytes ''abc''),
                        (''Task_01_3.jpg'', Bytes ''abc'')])
     \<and> logged (snd (fst (GetStatus env_locked demo_linked demo_world 1))) = [(LevelError, DeleteFailed)]
     \<and> snd (GetStatus env_locked demo_linked demo_world 1)
       = Inr [''status'' \<mapsto> status_completed,
              ''archive_url'' \<mapsto> ''http://localhost:8080/archives/Task_01.zip'']"
    by (simp add: demo_linked_simps demo_cfg_def port_demo demo_files_def demo_downloaded_def
        write_file_def base_demo)
  show ?thesis
    using d z files stat locked free kept by simp
qed

end
